theory Spec2Isabelle
  imports Main
begin

section \<open>The linear model of thinc/ml/learner.pyx\<close>

text \<open>
  A shallow embedding of \<^verbatim>\<open>thinc/ml/learner.pyx\<close>: the sparse weight store with its
  lazily averaged perceptron update, the gather-and-accumulate scoring, the bounded
  score cache and the text serialisation.

  The C typedefs live in \<^verbatim>\<open>thinc/typedefs.pxd\<close> and \<^verbatim>\<open>learner.pxd\<close>, which are
  not part of the sources at hand. Indices, counts and feature ids are natural numbers,
  weights and time stamps are integers (the dump writes weights with \<^verbatim>\<open>%d\<close> and the
  load reads them with \<^verbatim>\<open>atoi\<close>); the machine widths are not modelled. Time stamps are
  integers so that the difference of two time stamps is the exact difference.
\<close>

type_synonym class_t = nat
type_synonym feat_t = nat
type_synonym count_t = nat
type_synonym time_t = int
type_synonym weight_t = int
type_synonym addr = nat

definition LINE_SIZE :: nat where
  "LINE_SIZE = 7"

subsection \<open>Errors and memory accesses\<close>

text \<open>
  \<open>AssertionError\<close> is the Python exception of a failed \<^verbatim>\<open>assert\<close>. \<open>MemoryFault\<close> stands
  for every access the C code makes outside an allocated block or through a null
  pointer: the code has no check there, and the model stops at the access.
\<close>

datatype error = AssertionError | MemoryFault

definition err_bind :: "'e + 'a \<Rightarrow> ('a \<Rightarrow> 'e + 'b) \<Rightarrow> 'e + 'b" where
  "err_bind r f = (case r of Inl e \<Rightarrow> Inl e | Inr x \<Rightarrow> f x)"

text \<open>A \<^verbatim>\<open>for x in xs\<close> loop over a state; \<^verbatim>\<open>continue\<close> is a body that returns the state.\<close>

fun for_each :: "'a list \<Rightarrow> ('a \<Rightarrow> 's \<Rightarrow> 'e + 's) \<Rightarrow> 's \<Rightarrow> 'e + 's" where
  "for_each [] body s = Inr s"
| "for_each (x # xs) body s =
     (case body x s of Inl e \<Rightarrow> Inl e | Inr s' \<Rightarrow> for_each xs body s')"

text \<open>\<^verbatim>\<open>p[i]\<close>, \<^verbatim>\<open>p[i] = v\<close> and \<^verbatim>\<open>*p\<close> on a block of known length.\<close>

definition index :: "'a list \<Rightarrow> nat \<Rightarrow> error + 'a" where
  "index xs i = (if i < length xs then Inr (xs ! i) else Inl MemoryFault)"

definition store :: "'a list \<Rightarrow> nat \<Rightarrow> 'a \<Rightarrow> error + 'a list" where
  "store xs i v = (if i < length xs then Inr (xs[i := v]) else Inl MemoryFault)"

definition deref :: "'a option \<Rightarrow> error + 'a" where
  "deref p = (case p of None \<Rightarrow> Inl MemoryFault | Some v \<Rightarrow> Inr v)"

subsection \<open>Rows and columns\<close>

definition get_row :: "class_t \<Rightarrow> class_t" where
  "get_row clas = clas div LINE_SIZE"

definition get_col :: "class_t \<Rightarrow> class_t" where
  "get_col clas = clas mod LINE_SIZE"

definition get_nr_rows :: "class_t \<Rightarrow> class_t" where
  "get_nr_rows n =
     (let nr_lines = get_row n
      in if nr_lines = 0 \<or> nr_lines * LINE_SIZE < n then nr_lines + 1 else nr_lines)"

text \<open>
  \<^verbatim>\<open>get_nr_rows\<close> is declared \<^verbatim>\<open>except 0\<close>: a caller takes the return value 0 for a
  raised exception. \<open>get_nr_rows_except\<close> is the function as its callers see it.
\<close>

definition get_nr_rows_except :: "class_t \<Rightarrow> error option + class_t" where
  "get_nr_rows_except n = (if get_nr_rows n = 0 then Inl None else Inr (get_nr_rows n))"

subsection \<open>The arena and the feature records\<close>

text \<open>
  \<^verbatim>\<open>Pool\<close> (cymem) hands out zeroed blocks and never frees one. The only blocks with two
  owners are the row-pointer arrays \<^verbatim>\<open>weight_t**\<close>: the inference map and the
  \<^verbatim>\<open>TrainFeat\<close> of the training map point to the same array. They live in the store
  \<open>row_arrays\<close> under an address; a row of weights is owned by its array and a
  \<^verbatim>\<open>TrainFeat\<close> with its meta data rows by its cell of the training map, and they are
  nested there. An absent row is the null pointer \<open>None\<close>. Allocation always succeeds.
\<close>

record MetaData =
  total :: weight_t
  count :: count_t
  time :: time_t

record WeightLine =
  start :: class_t
  line :: "weight_t list"

record Pool =
  next_block :: addr
  row_arrays :: "addr \<Rightarrow> weight_t list option list option"

record TrainFeat =
  feat_weights :: addr
  feat_meta :: "MetaData list option list"

definition Pool_init :: Pool where
  "Pool_init = \<lparr>next_block = 0, row_arrays = (\<lambda>a. None)\<rparr>"

definition alloc_row_array :: "Pool \<Rightarrow> nat \<Rightarrow> addr \<times> Pool" where
  "alloc_row_array mem n =
     (next_block mem,
      mem\<lparr>next_block := Suc (next_block mem),
          row_arrays := (row_arrays mem)(next_block mem \<mapsto> replicate n None)\<rparr>)"

definition zero_meta :: MetaData where
  "zero_meta = \<lparr>total = 0, count = 0, time = 0\<rparr>"

definition new_train_feat :: "Pool \<Rightarrow> class_t \<Rightarrow> TrainFeat \<times> Pool" where
  "new_train_feat mem nr_class =
     (let nr_lines = get_nr_rows nr_class;
          (a, mem') = alloc_row_array mem nr_lines
      in (\<lparr>feat_weights = a, feat_meta = replicate nr_lines None\<rparr>, mem'))"

text \<open>\<^verbatim>\<open>feature[row]\<close>, \<^verbatim>\<open>feature[row][col]\<close> and the two assignments, for a \<^verbatim>\<open>weight_t** feature\<close>.\<close>

definition read_row :: "Pool \<Rightarrow> addr \<Rightarrow> nat \<Rightarrow> error + weight_t list option" where
  "read_row mem a row = err_bind (deref (row_arrays mem a)) (\<lambda>arr. index arr row)"

definition write_row :: "Pool \<Rightarrow> addr \<Rightarrow> nat \<Rightarrow> weight_t list \<Rightarrow> error + Pool" where
  "write_row mem a row ws =
     err_bind (deref (row_arrays mem a)) (\<lambda>arr.
     err_bind (store arr row (Some ws)) (\<lambda>arr'.
     Inr (mem\<lparr>row_arrays := (row_arrays mem)(a \<mapsto> arr')\<rparr>)))"

definition read_weight :: "Pool \<Rightarrow> addr \<Rightarrow> nat \<Rightarrow> nat \<Rightarrow> error + weight_t" where
  "read_weight mem a row col =
     err_bind (read_row mem a row) (\<lambda>p.
     err_bind (deref p) (\<lambda>ws. index ws col))"

definition write_weight :: "Pool \<Rightarrow> addr \<Rightarrow> nat \<Rightarrow> nat \<Rightarrow> weight_t \<Rightarrow> error + Pool" where
  "write_weight mem a row col v =
     err_bind (read_row mem a row) (\<lambda>p.
     err_bind (deref p) (\<lambda>ws.
     err_bind (store ws col v) (\<lambda>ws'. write_row mem a row ws')))"

text \<open>\<^verbatim>\<open>feat.meta[row][col]\<close> and its assignment.\<close>

definition read_meta :: "TrainFeat \<Rightarrow> nat \<Rightarrow> nat \<Rightarrow> error + MetaData" where
  "read_meta feat row col =
     err_bind (index (feat_meta feat) row) (\<lambda>p.
     err_bind (deref p) (\<lambda>ms. index ms col))"

definition write_meta :: "TrainFeat \<Rightarrow> nat \<Rightarrow> nat \<Rightarrow> MetaData \<Rightarrow> error + TrainFeat" where
  "write_meta feat row col md =
     err_bind (index (feat_meta feat) row) (\<lambda>p.
     err_bind (deref p) (\<lambda>ms.
     err_bind (store ms col md) (\<lambda>ms'.
     Inr (feat\<lparr>feat_meta := (feat_meta feat)[row := Some ms']\<rparr>))))"

definition get_total_count :: "TrainFeat \<Rightarrow> class_t \<Rightarrow> error + count_t" where
  "get_total_count feat n =
     for_each [0..<get_nr_rows n] (\<lambda>row total.
       err_bind (index (feat_meta feat) row) (\<lambda>p.
       case p of
         None \<Rightarrow> Inr total
       | Some ms \<Rightarrow>
           for_each [0..<LINE_SIZE] (\<lambda>col total.
             err_bind (index ms col) (\<lambda>md. Inr (total + count md))) total)) 0"

subsection \<open>The three steps of one weight update, and the final averaging\<close>

definition update_weight :: "Pool \<Rightarrow> TrainFeat \<Rightarrow> class_t \<Rightarrow> weight_t \<Rightarrow> error + Pool" where
  "update_weight mem feat clas inc =
     (let row = get_row clas; col = get_col clas
      in err_bind (read_weight mem (feat_weights feat) row col) (\<lambda>w.
         write_weight mem (feat_weights feat) row col (w + inc)))"

definition update_accumulator :: "Pool \<Rightarrow> TrainFeat \<Rightarrow> class_t \<Rightarrow> time_t \<Rightarrow> error + TrainFeat" where
  "update_accumulator mem feat clas tm =
     (let row = get_row clas; col = get_col clas
      in err_bind (read_weight mem (feat_weights feat) row col) (\<lambda>weight.
         err_bind (read_meta feat row col) (\<lambda>md.
         let unchanged = tm - time md
         in write_meta feat row col (md\<lparr>total := total md + unchanged * weight, time := tm\<rparr>))))"

definition update_count :: "TrainFeat \<Rightarrow> class_t \<Rightarrow> count_t \<Rightarrow> error + TrainFeat" where
  "update_count feat clas inc =
     (let row = get_row clas; col = get_col clas
      in err_bind (read_meta feat row col) (\<lambda>md.
         write_meta feat row col (md\<lparr>count := count md + inc\<rparr>)))"

definition average_cell :: "nat \<Rightarrow> time_t \<Rightarrow> nat \<Rightarrow> Pool \<times> TrainFeat \<Rightarrow> error + Pool \<times> TrainFeat" where
  "average_cell row tm col s =
     (case s of (mem, feat) \<Rightarrow>
        err_bind (read_meta feat row col) (\<lambda>md.
        err_bind (read_weight mem (feat_weights feat) row col) (\<lambda>w.
        let unchanged = (tm + 1) - time md;
            md' = md\<lparr>total := total md + unchanged * w\<rparr>
        in err_bind (write_meta feat row col md') (\<lambda>feat'.
           err_bind (write_weight mem (feat_weights feat) row col (total md')) (\<lambda>mem'.
           Inr (mem', feat'))))))"

definition average_weight :: "Pool \<Rightarrow> TrainFeat \<Rightarrow> class_t \<Rightarrow> time_t \<Rightarrow> error + Pool \<times> TrainFeat" where
  "average_weight mem feat nr_class tm =
     for_each [0..<get_nr_rows nr_class] (\<lambda>row s.
       err_bind (read_row (fst s) (feat_weights (snd s)) row) (\<lambda>p.
       case p of
         None \<Rightarrow> Inr s
       | Some _ \<Rightarrow> for_each [0..<LINE_SIZE] (average_cell row tm) s)) (mem, feat)"

subsection \<open>The hash maps\<close>

text \<open>
  \<^verbatim>\<open>PreshMap\<close> and \<^verbatim>\<open>PreshMapArray\<close> (preshed) are an external library. The code reads a
  map through \<^verbatim>\<open>get\<close> and \<^verbatim>\<open>set\<close> and, in \<^verbatim>\<open>end_training\<close> and \<^verbatim>\<open>dump\<close>, walks the
  table \<^verbatim>\<open>cells[0 .. length)\<close> itself, skipping the cells whose key is 0 (the empty
  cells). A map is therefore the list of its cells, a cell a key and a value pointer.
  \<open>map_set\<close> overwrites the cell of a key that is present and appends a cell otherwise:
  where a new key lands in the real table depends on its hash, and the theorems about
  tables below hold for every order of the cells. \<^verbatim>\<open>PreshMapArray.get(i, key)\<close> indexes its
  array of maps without a check.
\<close>

type_synonym 'v MapStruct = "(feat_t \<times> 'v option) list"

definition map_get :: "'v MapStruct \<Rightarrow> feat_t \<Rightarrow> 'v option" where
  "map_get cells key = (case map_of cells key of None \<Rightarrow> None | Some v \<Rightarrow> v)"

fun map_set :: "'v MapStruct \<Rightarrow> feat_t \<Rightarrow> 'v \<Rightarrow> 'v MapStruct" where
  "map_set [] key v = [(key, Some v)]"
| "map_set (c # cells) key v =
     (if fst c = key then (key, Some v) # cells else c # map_set cells key v)"

definition array_get :: "'v MapStruct list \<Rightarrow> nat \<Rightarrow> feat_t \<Rightarrow> error + 'v option" where
  "array_get maps i key = err_bind (index maps i) (\<lambda>cells. Inr (map_get cells key))"

definition array_set :: "'v MapStruct list \<Rightarrow> nat \<Rightarrow> feat_t \<Rightarrow> 'v \<Rightarrow> error + 'v MapStruct list" where
  "array_set maps i key v = err_bind (index maps i) (\<lambda>cells. store maps i (map_set cells key v))"

subsection \<open>The score cache\<close>

text \<open>
  A \<^verbatim>\<open>weight_t*\<close> handed out by the cache is one of the \<^verbatim>\<open>max_size\<close> buffers \<^verbatim>\<open>_arrays[i]\<close>
  or the buffer \<^verbatim>\<open>_scores_if_full\<close>. The cache map is keyed by the 64-bit hash of the
  kernel; \<^verbatim>\<open>hash64\<close> (murmurhash) is a parameter of the lookup. The field \<open>slot_i\<close> is
  \<^verbatim>\<open>self.i\<close>.
\<close>

datatype buffer = Array nat | Scores_if_full

record ScoresCache =
  cache_map :: "nat \<Rightarrow> buffer option"
  arrays :: "weight_t list list"
  scores_if_full :: "weight_t list"
  slot_i :: nat
  max_size :: nat
  scores_size :: nat
  n_hit :: nat
  n_total :: nat

definition ScoresCache_init :: "class_t \<Rightarrow> class_t \<Rightarrow> ScoresCache" where
  "ScoresCache_init scores_sz max_sz =
     \<lparr>cache_map = (\<lambda>h. None),
      arrays = replicate max_sz (replicate scores_sz 0),
      scores_if_full = replicate scores_sz 0,
      slot_i = 0,
      max_size = max_sz,
      scores_size = scores_sz,
      n_hit = 0,
      n_total = 0\<rparr>"

text \<open>
  \<^verbatim>\<open>lookup\<close> returns the buffer and writes \<^verbatim>\<open>is_hit[0]\<close> in two of its three branches;
  the flag goes in and comes out. The kernel is \<^verbatim>\<open>size\<close> bytes at \<^verbatim>\<open>kernel\<close>.
\<close>

definition lookup ::
  "('k list \<Rightarrow> nat) \<Rightarrow> ScoresCache \<Rightarrow> nat \<Rightarrow> 'k list \<Rightarrow> bool \<Rightarrow> error + buffer \<times> bool \<times> ScoresCache" where
  "lookup hash64 c sz kern is_hit =
     (let hashed = hash64 (take sz kern);
          scores = cache_map c hashed;
          c = c\<lparr>n_total := n_total c + 1\<rparr>
      in case scores of
           Some b \<Rightarrow> Inr (b, True, c\<lparr>n_hit := n_hit c + 1\<rparr>)
         | None \<Rightarrow>
             if slot_i c = max_size c then Inr (Scores_if_full, is_hit, c)
             else err_bind (index (arrays c) (slot_i c)) (\<lambda>_.
                  Inr (Array (slot_i c), False,
                       c\<lparr>slot_i := slot_i c + 1,
                         cache_map := (cache_map c)(hashed \<mapsto> Array (slot_i c))\<rparr>)))"

definition flush :: "ScoresCache \<Rightarrow> ScoresCache" where
  "flush c = c\<lparr>slot_i := 0, n_hit := 0, n_total := 0, cache_map := (\<lambda>h. None)\<rparr>"

text \<open>A sequence of lookups with nothing in between, each kernel hashed in full.\<close>

fun lookups ::
  "('k list \<Rightarrow> nat) \<Rightarrow> ScoresCache \<Rightarrow> 'k list list \<Rightarrow> bool \<Rightarrow> error + bool \<times> ScoresCache" where
  "lookups hash64 c [] is_hit = Inr (is_hit, c)"
| "lookups hash64 c (k # ks) is_hit =
     err_bind (lookup hash64 c (length k) k is_hit) (\<lambda>(b, is_hit', c'). lookups hash64 c' ks is_hit')"

subsection \<open>The model\<close>

text \<open>\<open>model_total\<close> and \<open>model_time\<close> are \<^verbatim>\<open>self.total\<close> and \<^verbatim>\<open>self.time\<close>.\<close>

record LinearModel =
  model_total :: nat
  n_corr :: nat
  nr_class :: class_t
  nr_templates :: nat
  model_time :: time_t
  cache :: ScoresCache
  weights :: "addr MapStruct list"
  train_weights :: "TrainFeat MapStruct list"
  mem :: Pool
  scores :: "weight_t list"
  weight_lines :: "WeightLine list"

definition zero_line :: WeightLine where
  "zero_line = \<lparr>start = 0, line = replicate LINE_SIZE 0\<rparr>"

definition LinearModel_init :: "class_t \<Rightarrow> nat \<Rightarrow> LinearModel" where
  "LinearModel_init n_class n_templates =
     \<lparr>model_total = 0,
      n_corr = 0,
      nr_class = n_class,
      nr_templates = n_templates,
      model_time = 0,
      cache = ScoresCache_init n_class 10000,
      weights = replicate n_templates [],
      train_weights = replicate n_templates [],
      mem = Pool_init,
      scores = replicate n_class 0,
      weight_lines = replicate (n_class * n_templates) zero_line\<rparr>"

definition new_feat :: "LinearModel \<Rightarrow> nat \<Rightarrow> feat_t \<Rightarrow> error + TrainFeat \<times> LinearModel" where
  "new_feat m template_id feat_id =
     (let (feat, mem') = new_train_feat (mem m) (nr_class m)
      in err_bind (array_set (weights m) template_id feat_id (feat_weights feat)) (\<lambda>w.
         err_bind (array_set (train_weights m) template_id feat_id feat) (\<lambda>tw.
         Inr (feat, m\<lparr>mem := mem', weights := w, train_weights := tw\<rparr>))))"

subsection \<open>Training\<close>

text \<open>
  The body of the inner loop of \<^verbatim>\<open>update\<close> after its two guards. The \<^verbatim>\<open>TrainFeat\<close> is
  changed through its pointer in the source; here the changed record is put back into
  its cell at the end.
\<close>

definition ensure_row :: "Pool \<Rightarrow> TrainFeat \<Rightarrow> nat \<Rightarrow> error + TrainFeat \<times> Pool" where
  "ensure_row pool feat row =
     err_bind (read_row pool (feat_weights feat) row) (\<lambda>p.
     case p of
       Some _ \<Rightarrow> Inr (feat, pool)
     | None \<Rightarrow>
         err_bind (write_row pool (feat_weights feat) row (replicate LINE_SIZE 0)) (\<lambda>pool'.
         err_bind (store (feat_meta feat) row (Some (replicate LINE_SIZE zero_meta))) (\<lambda>meta'.
         Inr (feat\<lparr>feat_meta := meta'\<rparr>, pool'))))"

definition touch_feature ::
  "LinearModel \<Rightarrow> class_t \<Rightarrow> nat \<Rightarrow> feat_t \<Rightarrow> weight_t \<Rightarrow> error + LinearModel" where
  "touch_feature m clas template_id feat_id upd =
     err_bind (array_get (train_weights m) template_id feat_id) (\<lambda>p.
     err_bind (case p of None \<Rightarrow> new_feat m template_id feat_id | Some feat \<Rightarrow> Inr (feat, m))
       (\<lambda>(feat, m).
     err_bind (ensure_row (mem m) feat (get_row clas)) (\<lambda>(feat, pool).
     err_bind (update_accumulator pool feat clas (model_time m)) (\<lambda>feat.
     err_bind (update_count feat clas 1) (\<lambda>feat.
     err_bind (update_weight pool feat clas upd) (\<lambda>pool.
     err_bind (array_set (train_weights m) template_id feat_id feat) (\<lambda>tw.
     Inr (m\<lparr>mem := pool, train_weights := tw\<rparr>))))))))"

text \<open>
  An exception leaves the model as it is at the raise: the error comes with the model
  on entry to the pair that raised.
\<close>

definition update_feature ::
  "class_t \<Rightarrow> (nat \<times> feat_t) \<times> weight_t \<Rightarrow> LinearModel \<Rightarrow> error \<times> LinearModel + LinearModel" where
  "update_feature clas entry m =
     (case entry of ((template_id, feat_id), upd) \<Rightarrow>
        if upd = 0 then Inr m
        else if feat_id = 0 then Inl (AssertionError, m)
        else (case touch_feature m clas template_id feat_id upd of
                Inl e \<Rightarrow> Inl (e, m)
              | Inr m' \<Rightarrow> Inr m'))"

text \<open>
  The argument of \<^verbatim>\<open>update\<close> is a dict of dicts; \<^verbatim>\<open>items()\<close> walks it in some order,
  which is the order of the association list.
\<close>

type_synonym updates = "(class_t \<times> ((nat \<times> feat_t) \<times> weight_t) list) list"

definition update :: "LinearModel \<Rightarrow> updates \<Rightarrow> error \<times> LinearModel + LinearModel" where
  "update m upds =
     for_each upds (\<lambda>(clas, features) m. for_each features (update_feature clas) m)
       (m\<lparr>model_time := model_time m + 1\<rparr>)"

definition average_entry :: "nat \<Rightarrow> nat \<Rightarrow> LinearModel \<Rightarrow> error + LinearModel" where
  "average_entry template_id i m =
     err_bind (index (train_weights m) template_id) (\<lambda>cells.
     err_bind (index cells i) (\<lambda>cell.
     if fst cell = 0 then Inr m
     else err_bind (deref (snd cell)) (\<lambda>feat.
          err_bind (average_weight (mem m) feat (nr_class m) (model_time m)) (\<lambda>(pool, feat').
          err_bind (store cells i (fst cell, Some feat')) (\<lambda>cells'.
          err_bind (store (train_weights m) template_id cells') (\<lambda>tw.
          Inr (m\<lparr>mem := pool, train_weights := tw\<rparr>)))))))"

definition end_training :: "LinearModel \<Rightarrow> error + LinearModel" where
  "end_training m =
     for_each [0..<nr_templates m] (\<lambda>template_id m.
       err_bind (index (train_weights m) template_id) (\<lambda>cells.
       for_each [0..<length cells] (average_entry template_id) m)) m"

subsection \<open>Scoring\<close>

text \<open>
  \<^verbatim>\<open>gather_weights\<close> copies every allocated row of every active feature into the next
  free \<^verbatim>\<open>WeightLine\<close> of the buffer; \<^verbatim>\<open>memcpy\<close> copies \<^verbatim>\<open>LINE_SIZE\<close> weights.
\<close>

definition gather_row ::
  "Pool \<Rightarrow> addr \<Rightarrow> nat \<Rightarrow> WeightLine list \<times> nat \<Rightarrow> error + WeightLine list \<times> nat" where
  "gather_row pool feature row s =
     (case s of (w_lines, f_i) \<Rightarrow>
        err_bind (read_row pool feature row) (\<lambda>p.
        case p of
          None \<Rightarrow> Inr s
        | Some ws \<Rightarrow>
            if length ws < LINE_SIZE then Inl MemoryFault
            else err_bind (index w_lines f_i) (\<lambda>wl.
                 err_bind (store w_lines f_i (wl\<lparr>start := row * LINE_SIZE, line := take LINE_SIZE ws\<rparr>))
                   (\<lambda>w_lines'. Inr (w_lines', f_i + 1)))))"

definition gather_feature ::
  "LinearModel \<Rightarrow> feat_t list \<Rightarrow> nat \<Rightarrow> WeightLine list \<times> nat \<Rightarrow> error + WeightLine list \<times> nat" where
  "gather_feature m feat_ids template_id s =
     err_bind (index feat_ids template_id) (\<lambda>feat_id.
     if feat_id = 0 then Inr s
     else err_bind (array_get (weights m) template_id feat_id) (\<lambda>feature.
          case feature of
            None \<Rightarrow> Inr s
          | Some a \<Rightarrow> for_each [0..<get_nr_rows (nr_class m)] (gather_row (mem m) a) s))"

definition gather_weights ::
  "LinearModel \<Rightarrow> WeightLine list \<Rightarrow> feat_t list \<Rightarrow> nat \<Rightarrow> error + WeightLine list \<times> nat" where
  "gather_weights m w_lines feat_ids nr_active =
     for_each [0..<nr_active] (gather_feature m feat_ids) (w_lines, 0)"

text \<open>\<^verbatim>\<open>scores[st + col] += weight_lines[row].line[col]\<close>\<close>

definition add_score :: "nat \<Rightarrow> WeightLine \<Rightarrow> nat \<Rightarrow> weight_t list \<Rightarrow> error + weight_t list" where
  "add_score st wl col scores_buf =
     err_bind (index (line wl) col) (\<lambda>w.
     err_bind (index scores_buf (st + col)) (\<lambda>s.
     store scores_buf (st + col) (s + w)))"

text \<open>
  The first branch of \<^verbatim>\<open>set_scores\<close> is the seven additions written out. In the second
  the bound of the loop is \<^verbatim>\<open>nr_class - start\<close>; a start beyond \<^verbatim>\<open>nr_class\<close> makes that
  difference wrap around for an unsigned \<^verbatim>\<open>class_t\<close>, and the model stops there.
\<close>

definition set_scores_row ::
  "WeightLine list \<Rightarrow> class_t \<Rightarrow> nat \<Rightarrow> weight_t list \<Rightarrow> error + weight_t list" where
  "set_scores_row w_lines n_class row scores_buf =
     err_bind (index w_lines row) (\<lambda>wl.
     let st = start wl
     in if st + LINE_SIZE < n_class then
          for_each [0, 1, 2, 3, 4, 5, 6] (add_score st wl) scores_buf
        else if n_class < st then Inl MemoryFault
        else for_each [0..<n_class - st] (add_score st wl) scores_buf)"

definition set_scores ::
  "weight_t list \<Rightarrow> WeightLine list \<Rightarrow> class_t \<Rightarrow> class_t \<Rightarrow> error + weight_t list" where
  "set_scores scores_buf w_lines nr_rows n_class =
     (if length scores_buf < n_class then Inl MemoryFault
      else for_each [0..<nr_rows] (set_scores_row w_lines n_class)
             (replicate n_class 0 @ drop n_class scores_buf))"

definition score ::
  "LinearModel \<Rightarrow> weight_t list \<Rightarrow> feat_t list \<Rightarrow> nat \<Rightarrow> error + weight_t list \<times> LinearModel" where
  "score m scores_buf features nr_active =
     err_bind (gather_weights m (weight_lines m) features nr_active) (\<lambda>(w_lines, f_i).
     err_bind (set_scores scores_buf w_lines f_i (nr_class m)) (\<lambda>scores'.
     Inr (scores', m\<lparr>weight_lines := w_lines\<rparr>)))"

text \<open>\<^verbatim>\<open>__call__\<close>: score into \<^verbatim>\<open>self.scores\<close> and copy the first \<^verbatim>\<open>nr_class\<close> scores out.\<close>

definition LinearModel_call :: "LinearModel \<Rightarrow> feat_t list \<Rightarrow> error + weight_t list \<times> LinearModel" where
  "LinearModel_call m py_feats =
     err_bind (score m (scores m) py_feats (length py_feats)) (\<lambda>(scores', m).
     let m = m\<lparr>scores := scores'\<rparr>
     in err_bind (for_each [0..<nr_class m] (\<lambda>i py_scores.
                    err_bind (index (scores m) i) (\<lambda>s. Inr (py_scores @ [s]))) [])
          (\<lambda>py_scores. Inr (py_scores, m)))"

subsection \<open>Text: Python's formatting and the C library's parsing\<close>

text \<open>
  \<^verbatim>\<open>str\<close> of a non-negative integer, \<^verbatim>\<open>'%d' %\<close> of an integer and \<^verbatim>\<open>'\t'.join\<close> on the
  writing side; \<^verbatim>\<open>strtok\<close>, \<^verbatim>\<open>strtoul\<close> and \<^verbatim>\<open>atoi\<close> on the reading side. They belong
  to Python and to libc: the models below read an optional run of white space, an
  optional sign and the longest run of decimal digits, and do not bound the value.
\<close>

definition digit_char :: "nat \<Rightarrow> char" where
  "digit_char d = char_of (48 + d)"

definition isdigit :: "char \<Rightarrow> bool" where
  "isdigit c = (48 \<le> (of_char c :: nat) \<and> (of_char c :: nat) \<le> 57)"

definition digit_val :: "char \<Rightarrow> nat" where
  "digit_val c = of_char c - 48"

definition isspace :: "char \<Rightarrow> bool" where
  "isspace c = ((of_char c :: nat) = 32 \<or> (9 \<le> (of_char c :: nat) \<and> (of_char c :: nat) \<le> 13))"

definition tab :: char where
  "tab = CHR 0x09"

definition newline :: char where
  "newline = CHR 0x0A"

function str_nat :: "nat \<Rightarrow> string" where
  "str_nat n = (if n < 10 then [digit_char n] else str_nat (n div 10) @ [digit_char (n mod 10)])"
  by pat_completeness auto
termination
  by (relation "measure (\<lambda>n. n)") auto

declare str_nat.simps [simp del]

definition str_int :: "int \<Rightarrow> string" where
  "str_int k = (if k < 0 then CHR ''-'' # str_nat (nat (- k)) else str_nat (nat k))"

fun join :: "string \<Rightarrow> string list \<Rightarrow> string" where
  "join sep [] = []"
| "join sep [x] = x"
| "join sep (x # y # ys) = x @ sep @ join sep (y # ys)"

fun digits_value :: "string \<Rightarrow> nat \<Rightarrow> nat" where
  "digits_value [] acc = acc"
| "digits_value (c # cs) acc =
     (if isdigit c then digits_value cs (acc * 10 + digit_val c) else acc)"

definition strtoul :: "string \<Rightarrow> nat" where
  "strtoul s =
     (case dropWhile isspace s of
        [] \<Rightarrow> 0
      | c # cs \<Rightarrow>
          if c = CHR ''+'' then digits_value cs 0
          else if c = CHR ''-'' then (2 ^ 64 - digits_value cs 0 mod 2 ^ 64) mod 2 ^ 64
          else digits_value (c # cs) 0)"

definition atoi :: "string \<Rightarrow> int" where
  "atoi s =
     (case dropWhile isspace s of
        [] \<Rightarrow> 0
      | c # cs \<Rightarrow>
          if c = CHR ''+'' then int (digits_value cs 0)
          else if c = CHR ''-'' then - int (digits_value cs 0)
          else int (digits_value (c # cs) 0))"

text \<open>
  \<^verbatim>\<open>strtok\<close> on what is left of the line: skip the separators, cut the token at the
  next separator. \<open>None\<close> is the null pointer of an exhausted line.
\<close>

definition strtok :: "string \<Rightarrow> (string \<times> string) option" where
  "strtok s =
     (let s' = dropWhile (\<lambda>c. c = tab) s
      in if s' = [] then None
         else Some (takeWhile (\<lambda>c. c \<noteq> tab) s', drop 1 (dropWhile (\<lambda>c. c \<noteq> tab) s')))"

subsection \<open>Dump and load\<close>

text \<open>
  The file is the list of its lines, each with its newline. \<^verbatim>\<open>dump\<close> appends to it;
  \<^verbatim>\<open>load\<close> reads it line by line.
\<close>

definition dump_weight :: "weight_t list \<Rightarrow> nat \<Rightarrow> string list \<times> bool \<Rightarrow> error + string list \<times> bool" where
  "dump_weight ws col s =
     (case s of (ln, seen_non_zero) \<Rightarrow>
        err_bind (index ws col) (\<lambda>w.
        let val = str_int w
        in Inr (ln @ [val], if val \<noteq> ''0'' then True else seen_non_zero)))"

definition dump_row ::
  "Pool \<Rightarrow> TrainFeat \<Rightarrow> count_t \<Rightarrow> nat \<Rightarrow> feat_t \<Rightarrow> nat \<Rightarrow> string list \<Rightarrow> error + string list" where
  "dump_row pool feat total_freq template_id feat_id row file =
     err_bind (read_row pool (feat_weights feat) row) (\<lambda>p.
     case p of
       None \<Rightarrow> Inr file
     | Some ws \<Rightarrow>
         err_bind (for_each [0..<LINE_SIZE] (dump_weight ws)
                     ([str_nat total_freq, str_nat template_id, str_nat feat_id,
                       str_nat row, str_nat (row * LINE_SIZE)], False))
           (\<lambda>(ln, seen_non_zero).
              if seen_non_zero then Inr (file @ [join [tab] ln @ [newline]]) else Inr file))"

definition dump_cell ::
  "LinearModel \<Rightarrow> class_t \<Rightarrow> nat \<Rightarrow> nat \<Rightarrow> string list \<Rightarrow> error + string list" where
  "dump_cell m freq_thresh template_id i file =
     err_bind (index (weights m) template_id) (\<lambda>weights_cells.
     err_bind (index (train_weights m) template_id) (\<lambda>train_cells.
     err_bind (index train_cells i) (\<lambda>tcell.
     if fst tcell = 0 then Inr file
     else err_bind (index weights_cells i) (\<lambda>wcell.
          let feat_id = fst wcell
          in case snd tcell of
               None \<Rightarrow> Inr file
             | Some feat \<Rightarrow>
                 err_bind (get_total_count feat (nr_class m)) (\<lambda>total_freq.
                 if 1 \<le> freq_thresh \<and> total_freq < freq_thresh then Inr file
                 else for_each [0..<get_nr_rows (nr_class m)]
                        (dump_row (mem m) feat total_freq template_id feat_id) file)))))"

definition dump :: "LinearModel \<Rightarrow> class_t \<Rightarrow> error + string list" where
  "dump m freq_thresh =
     for_each [0..<nr_templates m] (\<lambda>template_id file.
       err_bind (index (train_weights m) template_id) (\<lambda>train_cells.
       for_each [0..<length train_cells] (dump_cell m freq_thresh template_id) file)) []"

definition next_token :: "string \<Rightarrow> error + string \<times> string" where
  "next_token rest = deref (strtok rest)"

definition load_weight :: "addr \<Rightarrow> nat \<Rightarrow> nat \<Rightarrow> string \<times> Pool \<Rightarrow> error + string \<times> Pool" where
  "load_weight feature row col s =
     (case s of (rest, pool) \<Rightarrow>
        err_bind (next_token rest) (\<lambda>(token, rest).
        err_bind (write_weight pool feature row col (atoi token)) (\<lambda>pool.
        Inr (rest, pool))))"

definition load_feature :: "LinearModel \<Rightarrow> nat \<Rightarrow> nat \<Rightarrow> feat_t \<Rightarrow> error + addr \<times> LinearModel" where
  "load_feature m nr_rows template_id feat_id =
     err_bind (array_get (weights m) template_id feat_id) (\<lambda>feature.
     case feature of
       Some a \<Rightarrow> Inr (a, m)
     | None \<Rightarrow>
         (let (a, pool) = alloc_row_array (mem m) nr_rows
          in err_bind (array_set (weights m) template_id feat_id a) (\<lambda>w.
             Inr (a, m\<lparr>mem := pool, weights := w\<rparr>))))"

definition load_line :: "nat \<Rightarrow> class_t \<Rightarrow> string \<Rightarrow> LinearModel \<Rightarrow> error + LinearModel" where
  "load_line freq_thresh nr_rows py_line m =
     err_bind (next_token py_line) (\<lambda>(token, rest). let freq = strtoul token in
     err_bind (next_token rest) (\<lambda>(token, rest). let template_id = strtoul token in
     err_bind (next_token rest) (\<lambda>(token, rest). let feat_id = strtoul token in
     err_bind (next_token rest) (\<lambda>(token, rest). let row = strtoul token in
     err_bind (next_token rest) (\<lambda>(token, rest). let st = strtoul token in
     if 1 \<le> freq_thresh \<and> freq < freq_thresh then Inr m
     else err_bind (load_feature m nr_rows template_id feat_id) (\<lambda>(feature, m).
          err_bind (write_row (mem m) feature row (replicate LINE_SIZE 0)) (\<lambda>pool.
          err_bind (for_each [0..<LINE_SIZE] (load_weight feature row) (rest, pool)) (\<lambda>(rest, pool).
          Inr (m\<lparr>mem := pool\<rparr>)))))))))"

definition load :: "LinearModel \<Rightarrow> string list \<Rightarrow> nat \<Rightarrow> error + LinearModel" where
  "load m file freq_thresh =
     for_each file (load_line freq_thresh (get_nr_rows (nr_class m))) m"

subsection \<open>Reading a model\<close>

text \<open>The weights of a row pointer: the row, or \<^verbatim>\<open>LINE_SIZE\<close> zeros for the null pointer.\<close>

definition row_or_zero :: "weight_t list option \<Rightarrow> weight_t list" where
  "row_or_zero p = (case p of None \<Rightarrow> replicate LINE_SIZE 0 | Some ws \<Rightarrow> ws)"

text \<open>
  What scoring reads of a model. \<open>feature_rows\<close> is the row array that \<^verbatim>\<open>gather_weights\<close>
  walks for a template and a feature key (no row for the key 0 and for a key that is
  not in the inference map), \<open>row_lines\<close> the weight lines it copies from it, \<open>gathered\<close> the
  lines of all active features. \<open>cell rows c\<close> is the weight of class \<open>c\<close> in a row array, 0
  where the row is not allocated, and \<open>contrib\<close> what one weight line adds to the score
  of a class in \<^verbatim>\<open>set_scores\<close>. \<open>score_of\<close> is the score vector as the sum, per class, of the
  weights of the active features. \<open>scorable\<close> is the shape of the arena under which
  \<^verbatim>\<open>__call__\<close> stays inside its blocks.
\<close>

definition row_lines :: "weight_t list option list \<Rightarrow> WeightLine list" where
  "row_lines rows =
     concat (map (\<lambda>(row, p). case p of
                     None \<Rightarrow> []
                   | Some ws \<Rightarrow> [\<lparr>start = row * LINE_SIZE, line = take LINE_SIZE ws\<rparr>])
               (enumerate 0 rows))"

definition feature_rows :: "LinearModel \<Rightarrow> nat \<Rightarrow> feat_t \<Rightarrow> weight_t list option list" where
  "feature_rows m template_id feat_id =
     (if feat_id = 0 then []
      else case map_get (weights m ! template_id) feat_id of
             None \<Rightarrow> []
           | Some a \<Rightarrow> (case row_arrays (mem m) a of
                         None \<Rightarrow> []
                       | Some arr \<Rightarrow> take (get_nr_rows (nr_class m)) arr))"

definition contrib :: "WeightLine \<Rightarrow> nat \<Rightarrow> weight_t" where
  "contrib wl c = (if start wl \<le> c \<and> c < start wl + LINE_SIZE then line wl ! (c - start wl) else 0)"

definition cell :: "weight_t list option list \<Rightarrow> nat \<Rightarrow> weight_t" where
  "cell rows c =
     (if get_row c < length rows
      then case rows ! get_row c of None \<Rightarrow> 0 | Some ws \<Rightarrow> ws ! get_col c
      else 0)"

definition gathered :: "LinearModel \<Rightarrow> feat_t list \<Rightarrow> nat \<Rightarrow> WeightLine list" where
  "gathered m feat_ids nr_active =
     concat (map (\<lambda>t. row_lines (feature_rows m t (feat_ids ! t))) [0..<nr_active])"

definition scorable :: "LinearModel \<Rightarrow> bool" where
  "scorable m \<longleftrightarrow>
     (\<forall>t < length (weights m). \<forall>f a. map_get (weights m ! t) f = Some a \<longrightarrow>
        (\<exists>arr. row_arrays (mem m) a = Some arr \<and> get_nr_rows (nr_class m) \<le> length arr \<and>
           (\<forall>ws \<in> set arr. \<forall>w. ws = Some w \<longrightarrow> length w = LINE_SIZE)))"

definition score_of :: "LinearModel \<Rightarrow> feat_t list \<Rightarrow> weight_t list" where
  "score_of m feat_ids =
     map (\<lambda>c. sum_list (map (\<lambda>t. cell (feature_rows m t (feat_ids ! t)) c) [0..<length feat_ids]))
       [0..<nr_class m]"

subsection \<open>Dumped lines\<close>

text \<open>
  The line that \<^verbatim>\<open>dump\<close> writes for one row, as a function of what it prints: the five
  leading numbers and the weights of the row, joined by tabs and closed by a newline.
  A record is the tuple a line is rendered from; \<open>rec_key\<close> is the template and the
  feature key of a record.
\<close>

definition render_line :: "count_t \<Rightarrow> nat \<Rightarrow> feat_t \<Rightarrow> nat \<Rightarrow> weight_t list \<Rightarrow> string" where
  "render_line freq template_id feat_id row ws =
     join [tab] ([str_nat freq, str_nat template_id, str_nat feat_id, str_nat row,
                  str_nat (row * LINE_SIZE)] @ map str_int ws) @ [newline]"

type_synonym dump_rec = "count_t \<times> nat \<times> feat_t \<times> nat \<times> weight_t list"

definition render :: "dump_rec \<Rightarrow> string" where
  "render r = (case r of (freq, t, f, row, ws) \<Rightarrow> render_line freq t f row ws)"

text \<open>
  The row array that the inference map holds for a key. \<open>put_row\<close> and \<open>set_row\<close> say
  what loading one record does to it: the row of the record is set, in a new array of
  \<open>n\<close> null rows when the key is new.
\<close>

definition stored_rows :: "LinearModel \<Rightarrow> nat \<Rightarrow> feat_t \<Rightarrow> weight_t list option list option" where
  "stored_rows m t f =
     (case map_get (weights m ! t) f of None \<Rightarrow> None | Some a \<Rightarrow> row_arrays (mem m) a)"

definition put_row ::
  "nat \<Rightarrow> dump_rec \<Rightarrow> (nat \<times> feat_t \<Rightarrow> weight_t list option list option)
     \<Rightarrow> (nat \<times> feat_t \<Rightarrow> weight_t list option list option)" where
  "put_row n r v =
     (case r of (freq, t, f, row, ws) \<Rightarrow>
        v((t, f) \<mapsto> (case v (t, f) of None \<Rightarrow> replicate n None | Some arr \<Rightarrow> arr)[row := Some ws]))"

text \<open>
  What \<^verbatim>\<open>load\<close> keeps true of the model it fills: every key of the inference map points
  to an allocated array of \<open>n\<close> rows of \<^verbatim>\<open>LINE_SIZE\<close> weights, and no two keys share an array.
\<close>

definition loadable :: "LinearModel \<Rightarrow> nat \<Rightarrow> bool" where
  "loadable m n \<longleftrightarrow>
     (\<forall>t < length (weights m). \<forall>f a. map_get (weights m ! t) f = Some a \<longrightarrow>
        a < next_block (mem m) \<and>
        (\<exists>arr. row_arrays (mem m) a = Some arr \<and> length arr = n \<and>
           (\<forall>ws \<in> set arr. \<forall>w. ws = Some w \<longrightarrow> length w = LINE_SIZE))) \<and>
     (\<forall>t < length (weights m). \<forall>t' < length (weights m). \<forall>f f' a.
        map_get (weights m ! t) f = Some a \<longrightarrow> map_get (weights m ! t') f' = Some a \<longrightarrow>
        t = t' \<and> f = f')"

definition rec_key :: "dump_rec \<Rightarrow> nat \<times> feat_t" where
  "rec_key r = (case r of (freq, t, f, row, ws) \<Rightarrow> (t, f))"

definition set_row :: "dump_rec \<Rightarrow> weight_t list option list \<Rightarrow> weight_t list option list" where
  "set_row r arr = (case r of (freq, t, f, row, ws) \<Rightarrow> arr[row := Some ws])"

subsection \<open>The shape of a trained model\<close>

text \<open>
  What \<^verbatim>\<open>__init__\<close>, \<^verbatim>\<open>update\<close>, \<^verbatim>\<open>__call__\<close> and \<^verbatim>\<open>end_training\<close> keep true of a model:
  every allocated row has \<^verbatim>\<open>LINE_SIZE\<close> entries, every row array has \<^verbatim>\<open>get_nr_rows\<close> rows,
  the two maps of a template hold the same keys in the same cells, no key is 0, no value
  is null, and the inference map holds in each cell the row array of the training
  feature of that cell.
\<close>

definition rows_ok :: "'a list option list \<Rightarrow> bool" where
  "rows_ok arr \<longleftrightarrow> (\<forall>p \<in> set arr. \<forall>xs. p = Some xs \<longrightarrow> length xs = LINE_SIZE)"

definition heap_ok :: "Pool \<Rightarrow> nat \<Rightarrow> bool" where
  "heap_ok pool n \<longleftrightarrow>
     (\<forall>a arr. row_arrays pool a = Some arr \<longrightarrow> length arr = n \<and> rows_ok arr)"

definition cell_ok :: "Pool \<Rightarrow> nat \<Rightarrow> feat_t \<times> addr option \<Rightarrow> feat_t \<times> TrainFeat option \<Rightarrow> bool" where
  "cell_ok pool n wc tc \<longleftrightarrow>
     fst wc = fst tc \<and> fst tc \<noteq> 0 \<and>
     (\<exists>feat. snd tc = Some feat \<and> snd wc = Some (feat_weights feat) \<and>
        row_arrays pool (feat_weights feat) \<noteq> None \<and>
        length (feat_meta feat) = n \<and> rows_ok (feat_meta feat))"

definition table_ok :: "Pool \<Rightarrow> nat \<Rightarrow> addr MapStruct \<Rightarrow> TrainFeat MapStruct \<Rightarrow> bool" where
  "table_ok pool n wcells tcells \<longleftrightarrow>
     list_all2 (cell_ok pool n) wcells tcells \<and> distinct (map fst tcells)"

definition model_ok :: "LinearModel \<Rightarrow> bool" where
  "model_ok m \<longleftrightarrow>
     length (weights m) = nr_templates m \<and>
     list_all2 (table_ok (mem m) (get_nr_rows (nr_class m))) (weights m) (train_weights m) \<and>
     heap_ok (mem m) (get_nr_rows (nr_class m)) \<and>
     length (scores m) = nr_class m \<and>
     length (weight_lines m) = nr_class m * nr_templates m"

text \<open>The state of \<^verbatim>\<open>average_weight\<close> while it walks over the cells of one feature.\<close>

definition averaging :: "Pool \<Rightarrow> nat \<Rightarrow> addr \<Rightarrow> Pool \<times> TrainFeat \<Rightarrow> bool" where
  "averaging pool0 n a s \<longleftrightarrow>
     heap_ok (fst s) n \<and> (\<forall>a'. row_arrays pool0 a' \<noteq> None \<longrightarrow> row_arrays (fst s) a' \<noteq> None) \<and>
     feat_weights (snd s) = a \<and> length (feat_meta (snd s)) = n \<and> rows_ok (feat_meta (snd s))"

text \<open>
  The models a program can reach: a fresh one, and one more successful call of
  \<^verbatim>\<open>update\<close>, \<^verbatim>\<open>__call__\<close> or \<^verbatim>\<open>end_training\<close> on a reachable one.
\<close>

inductive trained :: "LinearModel \<Rightarrow> bool" where
  init: "trained (LinearModel_init n_class n_templates)"
| update: "trained m \<Longrightarrow> update m upds = Inr m' \<Longrightarrow> trained m'"
| call: "trained m \<Longrightarrow> LinearModel_call m feats = Inr (s, m') \<Longrightarrow> trained m'"
| end_training: "trained m \<Longrightarrow> end_training m = Inr m' \<Longrightarrow> trained m'"

subsection \<open>The records of a dump\<close>

text \<open>
  What \<^verbatim>\<open>dump\<close> writes, as records: for every template and every cell of its training
  map, in the order of the table, one record per allocated row of the feature that
  holds a weight other than 0, unless the total count of the feature is below a
  threshold of at least 1.
\<close>

definition total_count :: "TrainFeat \<Rightarrow> count_t" where
  "total_count feat =
     sum_list (map (\<lambda>p. case p of None \<Rightarrow> 0 | Some ms \<Rightarrow> sum_list (map count ms)) (feat_meta feat))"

definition nonzero_row :: "weight_t list option \<Rightarrow> weight_t list option" where
  "nonzero_row p =
     (case p of None \<Rightarrow> None | Some ws \<Rightarrow> if list_all (\<lambda>w. w = 0) ws then None else Some ws)"

definition row_rec :: "count_t \<Rightarrow> nat \<Rightarrow> feat_t \<Rightarrow> weight_t list option list \<Rightarrow> nat \<Rightarrow> dump_rec list" where
  "row_rec freq t f arr row =
     (case nonzero_row (arr ! row) of None \<Rightarrow> [] | Some ws \<Rightarrow> [(freq, t, f, row, ws)])"

definition row_recs :: "count_t \<Rightarrow> nat \<Rightarrow> feat_t \<Rightarrow> weight_t list option list \<Rightarrow> dump_rec list" where
  "row_recs freq t f arr = concat (map (row_rec freq t f arr) [0..<length arr])"

definition feat_recs :: "LinearModel \<Rightarrow> nat \<Rightarrow> nat \<Rightarrow> feat_t \<times> TrainFeat option \<Rightarrow> dump_rec list" where
  "feat_recs m thr t tc =
     (case snd tc of
        None \<Rightarrow> []
      | Some feat \<Rightarrow>
          if fst tc = 0 \<or> (1 \<le> thr \<and> total_count feat < thr) then []
          else case row_arrays (mem m) (feat_weights feat) of
                 None \<Rightarrow> []
               | Some arr \<Rightarrow> row_recs (total_count feat) t (fst tc) arr)"

definition dump_recs :: "LinearModel \<Rightarrow> nat \<Rightarrow> dump_rec list" where
  "dump_recs m thr =
     concat (map (\<lambda>t. concat (map (feat_recs m thr t) (train_weights m ! t))) [0..<nr_templates m])"

section \<open>Basic facts\<close>

lemma err_bind_Inr [simp]: "err_bind (Inr x) f = f x"
  by (simp add: err_bind_def)

lemma err_bind_Inl [simp]: "err_bind (Inl e) f = Inl e"
  by (simp add: err_bind_def)

lemma err_bind_eq_Inr:
  "err_bind r f = Inr y \<longleftrightarrow> (\<exists>x. r = Inr x \<and> f x = Inr y)"
  by (cases r) simp_all

lemma index_in [simp]: "i < length xs \<Longrightarrow> index xs i = Inr (xs ! i)"
  by (simp add: index_def)

lemma index_out [simp]: "\<not> i < length xs \<Longrightarrow> index xs i = Inl MemoryFault"
  by (simp add: index_def)

lemma store_in [simp]: "i < length xs \<Longrightarrow> store xs i v = Inr (xs[i := v])"
  by (simp add: store_def)

lemma store_out [simp]: "\<not> i < length xs \<Longrightarrow> store xs i v = Inl MemoryFault"
  by (simp add: store_def)

lemma deref_Some [simp]: "deref (Some v) = Inr v"
  by (simp add: deref_def)

lemma deref_None [simp]: "deref None = Inl MemoryFault"
  by (simp add: deref_def)

lemma for_each_append:
  "for_each (xs @ ys) body s = err_bind (for_each xs body s) (for_each ys body)"
  by (induction xs arbitrary: s) (simp_all split: sum.splits)

lemma for_each_snoc:
  "for_each (xs @ [x]) body s = err_bind (for_each xs body s) (body x)"
  by (cases "for_each xs body s") (simp_all add: for_each_append split: sum.splits)

lemma for_each_upt_Suc:
  "for_each [0..<Suc n] body s = err_bind (for_each [0..<n] body s) (body n)"
  by (simp add: for_each_snoc)

lemma for_each_id:
  assumes "\<And>x. x \<in> set xs \<Longrightarrow> body x s = Inr s"
  shows "for_each xs body s = Inr s"
  using assms by (induction xs) simp_all

lemma upt_LINE_SIZE: "[0..<LINE_SIZE] = [0, 1, 2, 3, 4, 5, 6]"
  by (simp add: LINE_SIZE_def upt_rec)

lemma upt_7: "[0..<7] = [0, 1, 2, 3, 4, 5, 6]"
  by (simp add: upt_rec)

lemma replicate_LINE_SIZE: "replicate LINE_SIZE x = [x, x, x, x, x, x, x]"
  by (simp add: LINE_SIZE_def numeral_eq_Suc)

lemma replicate_7: "replicate 7 x = [x, x, x, x, x, x, x]"
  by (simp add: numeral_eq_Suc)

lemma get_nr_rows_pos: "0 < get_nr_rows n"
  by (simp add: get_nr_rows_def Let_def)

lemma get_col_less: "get_col clas < LINE_SIZE"
  by (simp add: get_col_def LINE_SIZE_def)

text \<open>The definitions that a run of the model on concrete data unfolds.\<close>

lemmas run_defs =
  Let_def LINE_SIZE_def upt_7 replicate_7
  update_def LinearModel_init_def update_feature_def touch_feature_def array_get_def
  map_get_def new_feat_def new_train_feat_def get_nr_rows_def get_row_def get_col_def
  alloc_row_array_def Pool_init_def array_set_def ensure_row_def read_row_def write_row_def
  update_accumulator_def update_count_def update_weight_def read_weight_def write_weight_def
  read_meta_def write_meta_def zero_meta_def end_training_def average_entry_def
  average_weight_def average_cell_def zero_line_def

section \<open>The lazy average\<close>

text \<open>
  C1. One weight cell, the cell of class 0 of feature 5 of template 0 in a fresh model
  with one class: it starts with weight 0, time stamp 0 and total 0. Three calls of
  \<^verbatim>\<open>update\<close> follow, each advancing the model's time by one: the first adds 1 to the
  cell at time 1, the second touches nothing, the third adds 2 at time 3. After them
  the weight is 3 and the total is \<open>(1 - 0) * 0 + (3 - 1) * 1 = 2\<close>. \<^verbatim>\<open>end_training\<close> at
  time 3 adds \<open>((3 + 1) - 3) * 3\<close>: the total is 5, and the weight becomes the total,
  5, without a division.
\<close>

theorem lazy_average_pinned:
  "\<exists>m1 m2 m3 m4.
     update (LinearModel_init 1 1) [(0, [((0, 5), 1)])] = Inr m1 \<and>
     model_time m1 = 1 \<and> read_weight (mem m1) 0 0 0 = Inr 1 \<and>
     update m1 [] = Inr m2 \<and>
     update m2 [(0, [((0, 5), 2)])] = Inr m3 \<and>
     model_time m3 = 3 \<and> read_weight (mem m3) 0 0 0 = Inr 3 \<and>
     err_bind (deref (map_get (train_weights m3 ! 0) 5)) (\<lambda>feat. read_meta feat 0 0)
       = Inr \<lparr>total = (1 - 0) * 0 + (3 - 1) * 1, count = 2, time = 3\<rparr> \<and>
     end_training m3 = Inr m4 \<and>
     err_bind (deref (map_get (train_weights m4 ! 0) 5)) (\<lambda>feat. read_meta feat 0 0)
       = Inr \<lparr>total = (1 - 0) * 0 + (3 - 1) * 1 + ((3 + 1) - 3) * 3, count = 2, time = 3\<rparr> \<and>
     read_weight (mem m4) 0 0 0 = Inr 5 \<and>
     err_bind (deref (map_get (weights m4 ! 0) 5)) (\<lambda>a. read_weight (mem m4) a 0 0) = Inr 5"
  by (simp add: run_defs)

section \<open>Updates with zero deltas\<close>

lemma update_feature_zero: "snd entry = 0 \<Longrightarrow> update_feature clas entry m = Inr m"
  by (cases entry) (auto simp: update_feature_def)

lemma for_each_update_feature_zero:
  "\<forall>entry \<in> set features. snd entry = 0 \<Longrightarrow> for_each features (update_feature clas) m = Inr m"
  by (rule for_each_id) (simp add: update_feature_zero)

text \<open>
  C2, as the code has it. A call of \<^verbatim>\<open>update\<close> whose deltas are all zero changes no
  weight, no meta data, no feature map and no buffer; it advances the time counter of
  the model by one, as every call of \<^verbatim>\<open>update\<close> does.
\<close>

theorem update_zero_deltas:
  assumes "\<forall>(clas, features) \<in> set upds. \<forall>(key, upd) \<in> set features. upd = 0"
  shows "update m upds = Inr (m\<lparr>model_time := model_time m + 1\<rparr>)"
proof -
  have "for_each upds (\<lambda>(clas, features) m. for_each features (update_feature clas) m) m' = Inr m'"
    for m'
  proof (rule for_each_id)
    fix x assume x: "x \<in> set upds"
    obtain clas features where [simp]: "x = (clas, features)" by (cases x)
    from assms x have "\<forall>entry \<in> set features. snd entry = 0" by fastforce
    then show "(case x of (clas, features) \<Rightarrow> \<lambda>m. for_each features (update_feature clas) m) m' = Inr m'"
      by (simp add: for_each_update_feature_zero)
  qed
  then show ?thesis by (simp add: update_def)
qed

theorem update_zero_deltas_witness:
  "update (LinearModel_init 4 2) [(0, [((0, 1), 0)]), (3, [((1, 2), 0), ((0, 0), 0)])]
     = Inr ((LinearModel_init 4 2)\<lparr>model_time := model_time (LinearModel_init 4 2) + 1\<rparr>)"
  using update_zero_deltas [of "[(0, [((0, 1), 0)]), (3, [((1, 2), 0), ((0, 0), 0)])]" "LinearModel_init 4 2"]
  by simp

text \<open>
  C2, as the claim states it, fails on the time counter: after one call with a single
  zero delta the time of a fresh model is 1, not 0.
\<close>

theorem update_zero_deltas_time_counterexample:
  "model_time (LinearModel_init 1 1) = 0 \<and>
   map_sum (\<lambda>e. model_time (snd e)) model_time (update (LinearModel_init 1 1) [(0, [((0, 1), 0)])])
     = Inr 1"
  by (simp add: update_def update_feature_def LinearModel_init_def)

section \<open>The sentinel feature 0\<close>

lemma copy_scores:
  "n \<le> length xs \<Longrightarrow>
   for_each [0..<n] (\<lambda>i py_scores. err_bind (index xs i) (\<lambda>s. Inr (py_scores @ [s]))) acc
     = Inr (acc @ take n xs)"
proof (induction n)
  case 0
  then show ?case by simp
next
  case (Suc n)
  then show ?case by (simp add: for_each_snoc take_Suc_conv_app_nth)
qed

lemma gather_feature_sentinel:
  "t < length feat_ids \<Longrightarrow> feat_ids ! t = 0 \<Longrightarrow> gather_feature m feat_ids t s = Inr s"
  by (simp add: gather_feature_def)

lemma gather_weights_sentinels:
  "gather_weights m w_lines (replicate n 0) n = Inr (w_lines, 0)"
  unfolding gather_weights_def
  by (rule for_each_id) (simp add: gather_feature_sentinel)

text \<open>
  C3, as the code has it. Scoring ignores an entry with feature id 0: the gather step of
  that entry leaves the gather buffer and its fill count as they are, and a list of
  nothing but zeros scores to the zero vector without an error. \<^verbatim>\<open>update\<close> skips an
  entry with feature id 0 only when its delta is 0; with a delta other than 0 it fails
  its assertion \<^verbatim>\<open>feat_id != 0\<close>, and the model at the raise is the model before that
  entry: nothing has been allocated for it.
\<close>

theorem sentinel_feature_ignored_or_rejected:
  "(t < length feat_ids \<and> feat_ids ! t = 0 \<longrightarrow> gather_feature m feat_ids t s = Inr s) \<and>
   (nr_class m \<le> length (scores m) \<longrightarrow>
      LinearModel_call m (replicate n 0)
        = Inr (replicate (nr_class m) 0,
               m\<lparr>scores := replicate (nr_class m) 0 @ drop (nr_class m) (scores m)\<rparr>)) \<and>
   update_feature clas ((t, 0), upd) m = (if upd = 0 then Inr m else Inl (AssertionError, m)) \<and>
   (upd \<noteq> 0 \<longrightarrow>
      update m [(clas, [((t, 0), upd)])] = Inl (AssertionError, m\<lparr>model_time := model_time m + 1\<rparr>))"
proof (intro conjI impI)
  assume "t < length feat_ids \<and> feat_ids ! t = 0"
  then show "gather_feature m feat_ids t s = Inr s"
    by (simp add: gather_feature_sentinel)
next
  assume len: "nr_class m \<le> length (scores m)"
  have "set_scores (scores m) (weight_lines m) 0 (nr_class m)
          = Inr (replicate (nr_class m) 0 @ drop (nr_class m) (scores m))"
    using len by (simp add: set_scores_def)
  then have "score m (scores m) (replicate n 0) n
          = Inr (replicate (nr_class m) 0 @ drop (nr_class m) (scores m), m)"
    by (simp add: score_def gather_weights_sentinels)
  then show "LinearModel_call m (replicate n 0)
        = Inr (replicate (nr_class m) 0,
               m\<lparr>scores := replicate (nr_class m) 0 @ drop (nr_class m) (scores m)\<rparr>)"
    using len by (simp add: LinearModel_call_def Let_def copy_scores)
next
  show "update_feature clas ((t, 0), upd) m = (if upd = 0 then Inr m else Inl (AssertionError, m))"
    by (simp add: update_feature_def)
next
  assume "upd \<noteq> 0"
  then show "update m [(clas, [((t, 0), upd)])]
      = Inl (AssertionError, m\<lparr>model_time := model_time m + 1\<rparr>)"
    by (simp add: update_def update_feature_def)
qed

theorem sentinel_feature_witness:
  "((1::nat) < length [4, 0, 9 :: nat] \<and> [4, 0, 9 :: nat] ! 1 = 0) \<and>
   gather_feature (LinearModel_init 3 3) [4, 0, 9] 1 (weight_lines (LinearModel_init 3 3), 0)
     = Inr (weight_lines (LinearModel_init 3 3), 0) \<and>
   nr_class (LinearModel_init 3 3) \<le> length (scores (LinearModel_init 3 3)) \<and>
   LinearModel_call (LinearModel_init 3 3) (replicate 3 0)
     = Inr ([0, 0, 0], LinearModel_init 3 3) \<and>
   (2::int) \<noteq> 0 \<and>
   update (LinearModel_init 3 3) [(1, [((1, 0), 2)])]
     = Inl (AssertionError, (LinearModel_init 3 3)\<lparr>model_time := 1\<rparr>)"
  using sentinel_feature_ignored_or_rejected
    [of 1 "[4, 0, 9]" "LinearModel_init 3 3" "(weight_lines (LinearModel_init 3 3), 0)" 3 1 2]
  by (simp add: LinearModel_init_def numeral_3_eq_3)

text \<open>
  C3, as the claim states it, fails for \<^verbatim>\<open>update\<close>: feature id 0 with delta 1 is not
  skipped, the call raises \<^verbatim>\<open>AssertionError\<close>.
\<close>

theorem sentinel_update_counterexample:
  "update (LinearModel_init 1 1) [(0, [((0, 0), 1)])]
     = Inl (AssertionError, (LinearModel_init 1 1)\<lparr>model_time := 1\<rparr>)"
  by (simp add: update_def update_feature_def LinearModel_init_def)

section \<open>Construction\<close>

text \<open>
  C4, as the code has it. \<^verbatim>\<open>__init__\<close> has no check of \<^verbatim>\<open>nr_class\<close>: with 0 classes it
  returns a model with \<^verbatim>\<open>nr_class = 0\<close>, an empty score buffer and an empty gather
  buffer. \<^verbatim>\<open>get_nr_rows\<close>, declared \<^verbatim>\<open>except 0\<close>, never returns 0: for 0 classes
  it returns one row.
\<close>

theorem init_accepts_zero_classes:
  "nr_class (LinearModel_init 0 n_templates) = 0 \<and>
   scores (LinearModel_init 0 n_templates) = [] \<and>
   weight_lines (LinearModel_init 0 n_templates) = [] \<and>
   get_nr_rows_except n = Inr (get_nr_rows n) \<and>
   get_nr_rows 0 = 1"
  using get_nr_rows_pos [of n]
  by (simp add: LinearModel_init_def get_nr_rows_except_def)
     (simp add: get_nr_rows_def get_row_def)

text \<open>C4, as the claim states it, fails: a model with 0 classes and 1 template is constructed.\<close>

theorem init_zero_classes_counterexample:
  "nr_class (LinearModel_init 0 1) = 0 \<and> nr_templates (LinearModel_init 0 1) = 1 \<and>
   get_nr_rows_except 0 = Inr 1"
  by (simp add: LinearModel_init_def get_nr_rows_except_def get_nr_rows_def get_row_def)

section \<open>The score cache\<close>

lemma lookup_frame:
  assumes "lookup hash64 c sz k h = Inr (b, h', c')"
  shows "arrays c' = arrays c" "scores_if_full c' = scores_if_full c" "max_size c' = max_size c"
    "scores_size c' = scores_size c" "slot_i c \<le> slot_i c'" "n_total c' = n_total c + 1"
    "cache_map c x = Some y \<Longrightarrow> cache_map c' x = Some y"
  using assms
  by (auto simp: lookup_def Let_def err_bind_eq_Inr split: option.splits if_splits)

lemma lookup_when_full:
  assumes "lookup hash64 c sz k h = Inr (b, h', c')" and "slot_i c = max_size c"
  shows "slot_i c' = slot_i c \<and> cache_map c' = cache_map c"
  using assms
  by (auto simp: lookup_def Let_def err_bind_eq_Inr split: option.splits if_splits)

lemma lookups_frame:
  assumes "lookups hash64 c ks h = Inr (h', c')"
  shows "arrays c' = arrays c \<and> scores_if_full c' = scores_if_full c \<and> max_size c' = max_size c \<and>
    slot_i c \<le> slot_i c' \<and> (\<forall>x y. cache_map c x = Some y \<longrightarrow> cache_map c' x = Some y)"
  using assms
proof (induction ks arbitrary: c h)
  case Nil
  then show ?case by simp
next
  case (Cons k ks)
  from Cons.prems obtain b h1 c1 where 1: "lookup hash64 c (length k) k h = Inr (b, h1, c1)"
    and 2: "lookups hash64 c1 ks h1 = Inr (h', c')"
    by (auto simp: err_bind_eq_Inr)
  from Cons.IH [OF 2] lookup_frame [OF 1] show ?case
    by (metis le_trans)
qed

lemma lookups_when_full:
  assumes "lookups hash64 c ks h = Inr (h', c')" and "slot_i c = max_size c"
  shows "slot_i c' = max_size c' \<and> cache_map c' = cache_map c"
  using assms
proof (induction ks arbitrary: c h)
  case Nil
  then show ?case by simp
next
  case (Cons k ks)
  from Cons.prems obtain b h1 c1 where 1: "lookup hash64 c (length k) k h = Inr (b, h1, c1)"
    and 2: "lookups hash64 c1 ks h1 = Inr (h', c')"
    by (auto simp: err_bind_eq_Inr)
  from lookup_when_full [OF 1 Cons.prems(2)] lookup_frame(3) [OF 1] Cons.prems(2)
  have "slot_i c1 = max_size c1" and "cache_map c1 = cache_map c" by simp_all
  with Cons.IH [OF 2] show ?case by simp
qed

lemma lookup_hit:
  "cache_map c (hash64 (take sz k)) = Some b \<Longrightarrow>
   lookup hash64 c sz k h = Inr (b, True, c\<lparr>n_total := n_total c + 1, n_hit := n_hit c + 1\<rparr>)"
  by (simp add: lookup_def Let_def)

lemma lookup_full:
  "slot_i c = max_size c \<Longrightarrow> cache_map c (hash64 (take sz k)) = None \<Longrightarrow>
   lookup hash64 c sz k h = Inr (Scores_if_full, h, c\<lparr>n_total := n_total c + 1\<rparr>)"
  by (simp add: lookup_def Let_def)

lemma lookup_registers:
  assumes "lookup hash64 c sz k h = Inr (b, h1, c1)"
    and "cache_map c (hash64 (take sz k)) \<noteq> None \<or> slot_i c \<noteq> max_size c"
  shows "cache_map c1 (hash64 (take sz k)) = Some b"
  using assms
  by (auto simp: lookup_def Let_def err_bind_eq_Inr split: option.splits if_splits)

lemma lookups_full:
  "slot_i c = max_size c \<Longrightarrow> cache_map c (hash64 k) = None \<Longrightarrow>
   lookups hash64 c (replicate n k) h = Inr (h, c\<lparr>n_total := n_total c + n\<rparr>)"
proof (induction n arbitrary: c)
  case 0
  then show ?case by simp
next
  case (Suc n)
  have "lookups hash64 (c\<lparr>n_total := n_total c + 1\<rparr>) (replicate n k) h
        = Inr (h, c\<lparr>n_total := n_total c + 1\<rparr>\<lparr>n_total := n_total (c\<lparr>n_total := n_total c + 1\<rparr>) + n\<rparr>)"
    by (rule Suc.IH) (simp_all add: Suc.prems)
  then show ?case by (simp add: lookup_full Suc.prems)
qed

text \<open>
  C6, as the code has it. When the first lookup of a sequence does not end in the
  overflow branch (its hash was cached already, or the cache was not full), every later
  lookup of the same sequence, after any lookups in between and no flush, is a hit: it
  returns the same buffer, sets the hit flag and increments the hit counter and the
  total counter. No lookup writes to a buffer, and no lookup changes the buffer that a
  cached hash is bound to.
\<close>

theorem cache_second_lookup_hits:
  assumes "lookup hash64 c (length k) k h = Inr (b, h1, c1)"
    and "cache_map c (hash64 k) \<noteq> None \<or> slot_i c \<noteq> max_size c"
    and "lookups hash64 c1 ks h1 = Inr (h2, c2)"
  shows "lookup hash64 c2 (length k) k h2
           = Inr (b, True, c2\<lparr>n_total := n_total c2 + 1, n_hit := n_hit c2 + 1\<rparr>) \<and>
         arrays c2 = arrays c \<and> scores_if_full c2 = scores_if_full c \<and>
         (\<forall>x y. cache_map c x = Some y \<longrightarrow> cache_map c2 x = Some y)"
proof -
  from lookup_registers [OF assms(1)] assms(2) have "cache_map c1 (hash64 k) = Some b"
    by simp
  with lookups_frame [OF assms(3)] have "cache_map c2 (hash64 (take (length k) k)) = Some b"
    by simp
  then have "lookup hash64 c2 (length k) k h2
           = Inr (b, True, c2\<lparr>n_total := n_total c2 + 1, n_hit := n_hit c2 + 1\<rparr>)"
    by (rule lookup_hit)
  with lookups_frame [OF assms(3)] lookup_frame [OF assms(1)] show ?thesis
    by simp
qed

theorem cache_second_lookup_hits_witness:
  "lookup sum_list (ScoresCache_init 2 2) (length [2, 3 :: nat]) [2, 3] False
     = Inr (Array 0, False,
            (ScoresCache_init 2 2)\<lparr>n_total := 1, slot_i := 1, cache_map := (\<lambda>h. None)(5 \<mapsto> Array 0)\<rparr>) \<and>
   slot_i (ScoresCache_init 2 2) = 0 \<and> max_size (ScoresCache_init 2 2) = 2 \<and>
   lookups sum_list
     ((ScoresCache_init 2 2)\<lparr>n_total := 1, slot_i := 1, cache_map := (\<lambda>h. None)(5 \<mapsto> Array 0)\<rparr>)
     [[7], [8]] False
     = Inr (False,
            (ScoresCache_init 2 2)\<lparr>n_total := 3, slot_i := 2,
               cache_map := (\<lambda>h. None)(5 \<mapsto> Array 0, 7 \<mapsto> Array 1)\<rparr>) \<and>
   lookup sum_list
     ((ScoresCache_init 2 2)\<lparr>n_total := 3, slot_i := 2,
        cache_map := (\<lambda>h. None)(5 \<mapsto> Array 0, 7 \<mapsto> Array 1)\<rparr>)
     (length [2, 3 :: nat]) [2, 3] False
     = Inr (Array 0, True,
            (ScoresCache_init 2 2)\<lparr>n_total := 4, slot_i := 2, n_hit := 1,
               cache_map := (\<lambda>h. None)(5 \<mapsto> Array 0, 7 \<mapsto> Array 1)\<rparr>)"
proof -
  let ?c = "ScoresCache_init 2 2"
  let ?c1 = "?c\<lparr>n_total := 1, slot_i := 1, cache_map := (\<lambda>h. None)(5 \<mapsto> Array 0)\<rparr>"
  let ?c2 = "?c\<lparr>n_total := 3, slot_i := 2, cache_map := (\<lambda>h. None)(5 \<mapsto> Array 0, 7 \<mapsto> Array 1)\<rparr>"
  have 1: "lookup sum_list ?c (length [2, 3 :: nat]) [2, 3] False = Inr (Array 0, False, ?c1)"
    by (simp add: lookup_def ScoresCache_init_def Let_def)
  have 2: "cache_map ?c (sum_list [2, 3 :: nat]) \<noteq> None \<or> slot_i ?c \<noteq> max_size ?c"
    by (simp add: ScoresCache_init_def)
  have 3: "lookups sum_list ?c1 [[7], [8]] False = Inr (False, ?c2)"
    by (simp add: lookup_def ScoresCache_init_def Let_def)
  from cache_second_lookup_hits [of sum_list ?c "[2, 3]" False "Array 0" False ?c1 "[[7], [8]]" False ?c2] 1 2 3
  show ?thesis
    by (simp add: ScoresCache_init_def)
qed

text \<open>
  C6, as the claim states it, fails when the first lookup finds the cache full. A cache
  with one slot takes the sequence \<open>[1]\<close>; the sequence \<open>[2]\<close>, looked up twice, gets the
  overflow buffer both times, the hit flag stays as the caller set it and the hit
  counter stays 0.
\<close>

theorem cache_second_lookup_counterexample:
  "err_bind (lookup sum_list (ScoresCache_init 2 1) 1 [1 :: nat] False) (\<lambda>(b1, h1, c1).
   err_bind (lookup sum_list c1 1 [2] False) (\<lambda>(b2, h2, c2).
   err_bind (lookup sum_list c2 1 [2] False) (\<lambda>(b3, h3, c3).
   Inr (b1, b2, b3, h3, n_hit c3, n_total c3))))
   = (Inr (Array 0, Scores_if_full, Scores_if_full, False, 0, 3) :: error + _)"
  by (simp add: lookup_def ScoresCache_init_def Let_def)

text \<open>
  In a full cache (\<^verbatim>\<open>self.i == self.max_size\<close>) the lookup of a sequence whose hash is
  not cached returns the overflow buffer, registers nothing and leaves the hit counter
  alone; so does every repetition of it, any number of times. This branch of \<^verbatim>\<open>lookup\<close>
  does not write \<^verbatim>\<open>is_hit[0]\<close>: the flag comes back as the caller passed it in. Whatever
  is looked up in a full cache, the cache stays full and its key-to-slot map stays the
  same. \<^verbatim>\<open>flush\<close> resets the slot pointer, both counters and the map.
\<close>

lemma lookup_overflow:
  assumes "slot_i c = max_size c" and "cache_map c (hash64 k) = None"
  shows "lookup hash64 c (length k) k h = Inr (Scores_if_full, h, c\<lparr>n_total := n_total c + 1\<rparr>) \<and>
         lookups hash64 c (replicate n k) h = Inr (h, c\<lparr>n_total := n_total c + n\<rparr>) \<and>
         (\<forall>ks h' c'. lookups hash64 c ks h = Inr (h', c') \<longrightarrow>
            slot_i c' = max_size c' \<and> cache_map c' = cache_map c) \<and>
         flush c = c\<lparr>slot_i := 0, n_hit := 0, n_total := 0, cache_map := (\<lambda>h. None)\<rparr>"
  using assms lookup_full [of c hash64 "length k" k h] lookups_full [of c hash64 k n h]
    lookups_when_full [of hash64 c _ h]
  by (simp add: flush_def)

text \<open>
  C7. An overflow query is never to be a hit. On a cache with one slot, \<^verbatim>\<open>[2]\<close> is
  registered in slot 0 (a miss, the flag is set to False), \<^verbatim>\<open>[2]\<close> again is a hit (the
  flag is set to True), and then \<^verbatim>\<open>[3]\<close>, which is not cached, is looked up in the full
  cache with the same flag variable: the overflow buffer comes back, nothing is
  registered and the hit counter stays at 1, but the flag is still True, since the
  overflow branch is the only branch of \<^verbatim>\<open>lookup\<close> that does not write \<^verbatim>\<open>is_hit[0]\<close>. The
  caller is told that the overflow buffer holds the scores of \<^verbatim>\<open>[3]\<close>.
\<close>

theorem cache_overflow_stale_hit_flag:
  "err_bind (lookup sum_list (ScoresCache_init 2 1) 1 [2 :: nat] False) (\<lambda>(b1, h1, c1).
   err_bind (lookup sum_list c1 1 [2] h1) (\<lambda>(b2, h2, c2).
   err_bind (lookup sum_list c2 1 [3] h2) (\<lambda>(b3, h3, c3).
   Inr ((b1, h1), (b2, h2), (b3, h3), slot_i c3, max_size c3, cache_map c3 (sum_list [3]),
        n_hit c3, n_total c3))))
   = (Inr ((Array 0, False), (Array 0, True), (Scores_if_full, True), 1, 1, None, 1, 3)
        :: error + _)"
  by (simp add: lookup_def ScoresCache_init_def Let_def)

section \<open>What the update steps do to the memory\<close>

lemma read_row_eq_Inr:
  "read_row pool a row = Inr p \<longleftrightarrow>
   (\<exists>arr. row_arrays pool a = Some arr \<and> row < length arr \<and> arr ! row = p)"
  by (auto simp: read_row_def err_bind_eq_Inr deref_def index_def split: option.splits)

lemma write_row_eq_Inr:
  "write_row pool a row ws = Inr pool' \<longleftrightarrow>
   (\<exists>arr. row_arrays pool a = Some arr \<and> row < length arr \<and>
      pool' = pool\<lparr>row_arrays := (row_arrays pool)(a \<mapsto> arr[row := Some ws])\<rparr>)"
  by (auto simp: write_row_def err_bind_eq_Inr deref_def store_def split: option.splits)

lemma read_weight_eq_Inr:
  "read_weight pool a row col = Inr w \<longleftrightarrow>
   (\<exists>arr ws. row_arrays pool a = Some arr \<and> row < length arr \<and> arr ! row = Some ws \<and>
      col < length ws \<and> w = ws ! col)"
  by (auto simp: read_weight_def read_row_eq_Inr err_bind_eq_Inr deref_def index_def
      split: option.splits)

lemma write_weight_eq_Inr:
  "write_weight pool a row col v = Inr pool' \<longleftrightarrow>
   (\<exists>arr ws. row_arrays pool a = Some arr \<and> row < length arr \<and> arr ! row = Some ws \<and>
      col < length ws \<and>
      pool' = pool\<lparr>row_arrays := (row_arrays pool)(a \<mapsto> arr[row := Some (ws[col := v])])\<rparr>)"
  by (auto simp: write_weight_def read_row_eq_Inr write_row_eq_Inr err_bind_eq_Inr deref_def
      store_def split: option.splits)

lemma read_meta_eq_Inr:
  "read_meta feat row col = Inr md \<longleftrightarrow>
   (\<exists>ms. row < length (feat_meta feat) \<and> feat_meta feat ! row = Some ms \<and>
      col < length ms \<and> md = ms ! col)"
  by (auto simp: read_meta_def err_bind_eq_Inr deref_def index_def split: option.splits)

lemma write_meta_eq_Inr:
  "write_meta feat row col md = Inr feat' \<longleftrightarrow>
   (\<exists>ms. row < length (feat_meta feat) \<and> feat_meta feat ! row = Some ms \<and>
      col < length ms \<and>
      feat' = feat\<lparr>feat_meta := (feat_meta feat)[row := Some (ms[col := md])]\<rparr>)"
  by (auto simp: write_meta_def err_bind_eq_Inr deref_def index_def store_def split: option.splits)

lemma update_weight_eq_Inr:
  "update_weight pool feat clas inc = Inr pool' \<longleftrightarrow>
   (\<exists>arr ws. row_arrays pool (feat_weights feat) = Some arr \<and> get_row clas < length arr \<and>
      arr ! get_row clas = Some ws \<and> get_col clas < length ws \<and>
      pool' = pool\<lparr>row_arrays := (row_arrays pool)(feat_weights feat \<mapsto>
                 arr[get_row clas := Some (ws[get_col clas := ws ! get_col clas + inc])])\<rparr>)"
  by (auto simp: update_weight_def Let_def read_weight_eq_Inr write_weight_eq_Inr err_bind_eq_Inr)

lemma update_accumulator_eq_Inr:
  "update_accumulator pool feat clas tm = Inr feat' \<longleftrightarrow>
   (\<exists>w ms. read_weight pool (feat_weights feat) (get_row clas) (get_col clas) = Inr w \<and>
      get_row clas < length (feat_meta feat) \<and> feat_meta feat ! get_row clas = Some ms \<and>
      get_col clas < length ms \<and>
      feat' = feat\<lparr>feat_meta := (feat_meta feat)[get_row clas := Some (ms[get_col clas :=
                (ms ! get_col clas)\<lparr>total := total (ms ! get_col clas)
                    + (tm - time (ms ! get_col clas)) * w, time := tm\<rparr>])]\<rparr>)"
  by (auto simp: update_accumulator_def Let_def read_meta_eq_Inr write_meta_eq_Inr err_bind_eq_Inr)

lemma update_count_eq_Inr:
  "update_count feat clas inc = Inr feat' \<longleftrightarrow>
   (\<exists>ms. get_row clas < length (feat_meta feat) \<and> feat_meta feat ! get_row clas = Some ms \<and>
      get_col clas < length ms \<and>
      feat' = feat\<lparr>feat_meta := (feat_meta feat)[get_row clas := Some (ms[get_col clas :=
                (ms ! get_col clas)\<lparr>count := count (ms ! get_col clas) + inc\<rparr>])]\<rparr>)"
  by (auto simp: update_count_def Let_def read_meta_eq_Inr write_meta_eq_Inr err_bind_eq_Inr)

lemma ensure_row_Inr:
  assumes "ensure_row pool feat row = Inr (feat', pool')"
  shows "\<exists>arr. row_arrays pool (feat_weights feat) = Some arr \<and> row < length arr \<and>
      feat_weights feat' = feat_weights feat \<and> next_block pool' = next_block pool \<and>
      row_arrays pool' = (row_arrays pool)(feat_weights feat \<mapsto>
         arr[row := Some (case arr ! row of None \<Rightarrow> replicate LINE_SIZE 0 | Some ws \<Rightarrow> ws)]) \<and>
      (case arr ! row of
         Some ws \<Rightarrow> feat_meta feat' = feat_meta feat
       | None \<Rightarrow> row < length (feat_meta feat) \<and>
           feat_meta feat' = (feat_meta feat)[row := Some (replicate LINE_SIZE zero_meta)])"
proof -
  from assms obtain arr where arr: "row_arrays pool (feat_weights feat) = Some arr" "row < length arr"
    and rest: "(case arr ! row of
       Some _ \<Rightarrow> Inr (feat, pool)
     | None \<Rightarrow>
         err_bind (write_row pool (feat_weights feat) row (replicate LINE_SIZE 0)) (\<lambda>pool'.
         err_bind (store (feat_meta feat) row (Some (replicate LINE_SIZE zero_meta))) (\<lambda>meta'.
         Inr (feat\<lparr>feat_meta := meta'\<rparr>, pool')))) = Inr (feat', pool')"
    by (auto simp: ensure_row_def read_row_eq_Inr err_bind_eq_Inr)
  show ?thesis
  proof (cases "arr ! row")
    case None
    with rest arr show ?thesis
      by (auto simp: write_row_eq_Inr err_bind_eq_Inr store_def split: if_splits)
  next
    case (Some ws)
    with rest arr have "feat' = feat" "pool' = pool" by simp_all
    moreover from Some arr have "arr[row := Some ws] = arr"
      by (metis list_update_id)
    ultimately show ?thesis using arr Some
      by (auto simp: fun_upd_idem)
  qed
qed


lemma map_get_map_set: "map_get (map_set cells key v) key' = (if key' = key then Some v else map_get cells key')"
  by (induction cells) (auto simp: map_get_def)

lemma new_feat_Inr:
  assumes "new_feat m t f = Inr (feat, m1)"
  shows "t < length (weights m)" "t < length (train_weights m)"
    "feat = \<lparr>feat_weights = next_block (mem m), feat_meta = replicate (get_nr_rows (nr_class m)) None\<rparr>"
    "m1 = m\<lparr>mem := (mem m)\<lparr>next_block := Suc (next_block (mem m)),
                 row_arrays := (row_arrays (mem m))(next_block (mem m) \<mapsto>
                    replicate (get_nr_rows (nr_class m)) None)\<rparr>,
             weights := (weights m)[t := map_set (weights m ! t) f (next_block (mem m))],
             train_weights := (train_weights m)[t := map_set (train_weights m ! t) f feat]\<rparr>"
  using assms
  by (auto simp: new_feat_def new_train_feat_def alloc_row_array_def Let_def array_set_def
      err_bind_eq_Inr index_def store_def split: if_splits)

lemma touch_feature_Inr:
  assumes "touch_feature m clas t f upd = Inr m'"
  obtains feat0 m0 feat1 pool1 feat2 feat3 pool2 where
    "t < length (train_weights m)"
    "case map_get (train_weights m ! t) f of
       None \<Rightarrow> new_feat m t f = Inr (feat0, m0)
     | Some ft \<Rightarrow> feat0 = ft \<and> m0 = m"
    "ensure_row (mem m0) feat0 (get_row clas) = Inr (feat1, pool1)"
    "update_accumulator pool1 feat1 clas (model_time m0) = Inr feat2"
    "update_count feat2 clas 1 = Inr feat3"
    "update_weight pool1 feat3 clas upd = Inr pool2"
    "t < length (train_weights m0)"
    "m' = m0\<lparr>mem := pool2, train_weights := (train_weights m0)[t := map_set (train_weights m0 ! t) f feat3]\<rparr>"
proof -
  from assms have t: "t < length (train_weights m)"
    by (auto simp: touch_feature_def array_get_def err_bind_eq_Inr index_def split: if_splits)
  from assms t obtain feat0 m0 where
    0: "(case map_get (train_weights m ! t) f of None \<Rightarrow> new_feat m t f | Some feat \<Rightarrow> Inr (feat, m))
          = Inr (feat0, m0)"
    and rest: "err_bind (ensure_row (mem m0) feat0 (get_row clas)) (\<lambda>(feat, pool).
     err_bind (update_accumulator pool feat clas (model_time m0)) (\<lambda>feat.
     err_bind (update_count feat clas 1) (\<lambda>feat.
     err_bind (update_weight pool feat clas upd) (\<lambda>pool.
     err_bind (array_set (train_weights m0) t f feat) (\<lambda>tw.
     Inr (m0\<lparr>mem := pool, train_weights := tw\<rparr>)))))) = Inr m'"
    by (auto simp: touch_feature_def array_get_def err_bind_eq_Inr)
  from rest obtain feat1 pool1 feat2 feat3 pool2 tw where
    1: "ensure_row (mem m0) feat0 (get_row clas) = Inr (feat1, pool1)"
    and 2: "update_accumulator pool1 feat1 clas (model_time m0) = Inr feat2"
    and 3: "update_count feat2 clas 1 = Inr feat3"
    and 4: "update_weight pool1 feat3 clas upd = Inr pool2"
    and 5: "array_set (train_weights m0) t f feat3 = Inr tw"
    and 6: "m' = m0\<lparr>mem := pool2, train_weights := tw\<rparr>"
    by (auto simp: err_bind_eq_Inr)
  from 5 have t0: "t < length (train_weights m0)"
    and tw: "tw = (train_weights m0)[t := map_set (train_weights m0 ! t) f feat3]"
    by (auto simp: array_set_def err_bind_eq_Inr index_def store_def split: if_splits)
  from 0 have "case map_get (train_weights m ! t) f of
       None \<Rightarrow> new_feat m t f = Inr (feat0, m0)
     | Some ft \<Rightarrow> feat0 = ft \<and> m0 = m"
    by (auto split: option.splits)
  with t 1 2 3 4 t0 6 tw show thesis
    by (auto intro: that)
qed


lemma update_accumulator_weights:
  "update_accumulator pool feat clas tm = Inr feat' \<Longrightarrow> feat_weights feat' = feat_weights feat"
  by (auto simp: update_accumulator_eq_Inr)

lemma update_count_weights:
  "update_count feat clas inc = Inr feat' \<Longrightarrow> feat_weights feat' = feat_weights feat"
  by (auto simp: update_count_eq_Inr)

lemma rows_of_9: "get_row 9 = 1" "get_col 9 = 2" "get_nr_rows 10 = 2"
  by (simp_all add: get_row_def get_col_def get_nr_rows_def LINE_SIZE_def)

lemma update_single:
  "update m [(clas, [((t, f), upd)])] = Inr m' \<Longrightarrow> upd \<noteq> 0 \<Longrightarrow>
   f \<noteq> 0 \<and> touch_feature (m\<lparr>model_time := model_time m + 1\<rparr>) clas t f upd = Inr m'"
  by (auto simp: update_def update_feature_def split: if_splits sum.splits)

lemma meta_literal: "md\<lparr>total := a, time := c, count := b\<rparr> = \<lparr>total = a, count = b, time = c\<rparr>"
  by (cases md) simp

lemma class_9_effect:
  assumes up: "update m [(9, [((t, f), upd)])] = Inr m'" and "upd \<noteq> 0" and nc: "nr_class m = 10"
  shows "\<exists>a old ws ft' oldmeta ms.
      (case map_get (train_weights m ! t) f of
         None \<Rightarrow> a = next_block (mem m) \<and> old = [None, None] \<and> oldmeta = [None, None]
       | Some ft \<Rightarrow> a = feat_weights ft \<and> row_arrays (mem m) a = Some old \<and> oldmeta = feat_meta ft) \<and>
      1 < length old \<and>
      ws = (case old ! 1 of None \<Rightarrow> replicate LINE_SIZE 0 | Some ws0 \<Rightarrow> ws0) \<and>
      2 < length ws \<and>
      row_arrays (mem m') = (row_arrays (mem m))(a \<mapsto> old[1 := Some (ws[2 := ws ! 2 + upd])]) \<and>
      map_get (train_weights m' ! t) f = Some ft' \<and> feat_weights ft' = a \<and>
      (case old ! 1 of None \<Rightarrow> ms = replicate LINE_SIZE zero_meta | Some _ \<Rightarrow> oldmeta ! 1 = Some ms) \<and>
      1 < length oldmeta \<and> 2 < length ms \<and>
      feat_meta ft' = oldmeta[1 := Some (ms[2 := \<lparr>
         total = total (ms ! 2) + (model_time m + 1 - time (ms ! 2)) * (ws ! 2),
         count = count (ms ! 2) + 1,
         time = model_time m + 1\<rparr>])]"
proof -
  let ?M = "m\<lparr>model_time := model_time m + 1\<rparr>"
  from update_single [OF up \<open>upd \<noteq> 0\<close>] have tf: "touch_feature ?M 9 t f upd = Inr m'" by simp
  from tf obtain feat0 m0 feat1 pool1 feat2 feat3 pool2 where
    t: "t < length (train_weights ?M)"
    and 0: "case map_get (train_weights ?M ! t) f of
       None \<Rightarrow> new_feat ?M t f = Inr (feat0, m0)
     | Some ft \<Rightarrow> feat0 = ft \<and> m0 = ?M"
    and 1: "ensure_row (mem m0) feat0 (get_row 9) = Inr (feat1, pool1)"
    and 2: "update_accumulator pool1 feat1 9 (model_time m0) = Inr feat2"
    and 3: "update_count feat2 9 1 = Inr feat3"
    and 4: "update_weight pool1 feat3 9 upd = Inr pool2"
    and t0: "t < length (train_weights m0)"
    and m': "m' = m0\<lparr>mem := pool2, train_weights := (train_weights m0)[t := map_set (train_weights m0 ! t) f feat3]\<rparr>"
    by (rule touch_feature_Inr)
  from 2 3 have w3: "feat_weights feat3 = feat_weights feat1"
    by (simp add: update_accumulator_weights update_count_weights)
  from ensure_row_Inr [OF 1, unfolded rows_of_9] obtain arr where
    arr: "row_arrays (mem m0) (feat_weights feat0) = Some arr" "1 < length arr"
    and w1: "feat_weights feat1 = feat_weights feat0"
    and h1: "row_arrays pool1 = (row_arrays (mem m0))(feat_weights feat0 \<mapsto>
         arr[1 := Some (case arr ! 1 of None \<Rightarrow> replicate LINE_SIZE 0 | Some ws \<Rightarrow> ws)])"
    and e1: "case arr ! 1 of
         Some ws \<Rightarrow> feat_meta feat1 = feat_meta feat0
       | None \<Rightarrow> 1 < length (feat_meta feat0) \<and>
           feat_meta feat1 = (feat_meta feat0)[1 := Some (replicate LINE_SIZE zero_meta)]"
    by blast
  let ?ws = "case arr ! 1 of None \<Rightarrow> replicate LINE_SIZE 0 | Some ws \<Rightarrow> ws"
  from 4 w3 w1 h1 arr have len: "2 < length ?ws"
    and h2: "row_arrays pool2 = (row_arrays (mem m0))(feat_weights feat0 \<mapsto>
         arr[1 := Some (?ws[2 := ?ws ! 2 + upd])])"
    by (auto simp: update_weight_eq_Inr rows_of_9)
  from 2 obtain w ms where rw: "read_weight pool1 (feat_weights feat1) 1 2 = Inr w"
    and ms: "1 < length (feat_meta feat1)" "feat_meta feat1 ! 1 = Some ms" "2 < length ms"
    and f2: "feat_meta feat2 = (feat_meta feat1)[1 := Some (ms[2 :=
                (ms ! 2)\<lparr>total := total (ms ! 2) + (model_time m0 - time (ms ! 2)) * w,
                   time := model_time m0\<rparr>])]"
    by (auto simp: update_accumulator_eq_Inr rows_of_9)
  from rw w1 h1 arr have w: "w = ?ws ! 2"
    by (auto simp: read_weight_eq_Inr)
  from 3 f2 ms have f3: "feat_meta feat3 = (feat_meta feat1)[1 := Some (ms[2 :=
                \<lparr>total = total (ms ! 2) + (model_time m0 - time (ms ! 2)) * w,
                   count = count (ms ! 2) + 1, time = model_time m0\<rparr>])]"
    by (auto simp: update_count_eq_Inr rows_of_9 meta_literal)
  from m' t0 have get: "map_get (train_weights m' ! t) f = Some feat3"
    by (simp add: map_get_map_set)
  have tm: "model_time m0 = model_time m + 1"
    using 0 by (auto dest: new_feat_Inr(4) split: option.splits)
  show ?thesis
  proof (cases "map_get (train_weights m ! t) f")
    case None
    with 0 have nf: "new_feat ?M t f = Inr (feat0, m0)" by simp
    from new_feat_Inr(3,4) [OF nf] nc
    have a: "feat_weights feat0 = next_block (mem m)"
      and h0: "row_arrays (mem m0) = (row_arrays (mem m))(next_block (mem m) \<mapsto> [None, None])"
      and m0: "feat_meta feat0 = [None, None]"
      by (simp_all add: rows_of_9 numeral_2_eq_2)
    from arr a h0 have [simp]: "arr = [None, None]" by simp
    from e1 m0 have "feat_meta feat1 = [None, Some (replicate LINE_SIZE zero_meta)]" by simp
    with ms f3 have "ms = replicate LINE_SIZE zero_meta"
      and "feat_meta feat3 = [None, None][1 := Some (ms[2 :=
                \<lparr>total = total (ms ! 2) + (model_time m0 - time (ms ! 2)) * w,
                   count = count (ms ! 2) + 1, time = model_time m0\<rparr>])]"
      by simp_all
    with a h0 h2 len m' None get w3 w1 w tm ms(3) show ?thesis
      by simp
  next
    case (Some ft)
    with 0 have [simp]: "feat0 = ft" "m0 = ?M" by simp_all
    have "case arr ! 1 of None \<Rightarrow> ms = replicate LINE_SIZE zero_meta | Some _ \<Rightarrow> feat_meta ft ! 1 = Some ms"
      using e1 ms by (auto split: option.splits)
    moreover have "1 < length (feat_meta ft)"
      using e1 ms by (auto split: option.splits)
    moreover have "feat_meta feat3 = (feat_meta ft)[1 := Some (ms[2 :=
                \<lparr>total = total (ms ! 2) + (model_time m0 - time (ms ! 2)) * w,
                   count = count (ms ! 2) + 1, time = model_time m0\<rparr>])]"
      using f3 e1 by (auto split: option.splits)
    ultimately show ?thesis
      using arr h2 len m' Some get w3 w1 w ms(3)
      by (intro exI [of _ "feat_weights ft"] exI [of _ arr] exI [of _ ?ws] exI [of _ feat3]
          exI [of _ "feat_meta ft"] exI [of _ ms]) simp
  qed
qed

lemma length_7_conv:
  "length xs = 7 \<longleftrightarrow> (\<exists>a0 a1 a2 a3 a4 a5 a6. xs = [a0, a1, a2, a3, a4, a5, a6])"
  by (auto simp: numeral_eq_Suc length_Suc_conv)

lemma upt_3: "[0..<3] = [0, 1, 2]"
  by (simp add: upt_rec)

lemma upt_10: "[0..<10] = [0, 1, 2, 3, 4, 5, 6, 7, 8, 9]"
  by (simp add: upt_rec)

lemma replicate_10: "replicate 10 x = [x, x, x, x, x, x, x, x, x, x]"
  by (simp add: numeral_eq_Suc)

lemma replicate_2: "replicate 2 x = [x, x]"
  by (simp add: numeral_eq_Suc)

lemma weight_line_eq: "wl\<lparr>start := s, line := l\<rparr> = \<lparr>start = s, line = l\<rparr>"
  by (cases wl) simp

lemmas score_defs =
  Let_def LINE_SIZE_def upt_7 replicate_7
  LinearModel_call_def score_def gather_weights_def gather_feature_def gather_row_def
  set_scores_def set_scores_row_def add_score_def array_get_def read_row_def
  get_nr_rows_def get_row_def


lemma score_ten_classes:
  assumes nc: "nr_class m = 10" and sc: "10 \<le> length (scores m)" and wl: "2 \<le> length (weight_lines m)"
    and w: "weights m \<noteq> []" and f: "f \<noteq> 0" and a: "map_get (weights m ! 0) f = Some a"
    and arr: "row_arrays (mem m) a = Some [p0, p1]"
    and l0: "length (row_or_zero p0) = 7" and l1: "length (row_or_zero p1) = 7"
  shows "\<exists>m'. LinearModel_call m [f] = Inr (row_or_zero p0 @ take 3 (row_or_zero p1), m') \<and>
     scores m' = row_or_zero p0 @ take 3 (row_or_zero p1) @ drop 10 (scores m)"
proof -
  from l0 obtain a0 a1 a2 a3 a4 a5 a6 where r0: "row_or_zero p0 = [a0, a1, a2, a3, a4, a5, a6]"
    by (auto simp: length_7_conv)
  from l1 obtain b0 b1 b2 b3 b4 b5 b6 where r1: "row_or_zero p1 = [b0, b1, b2, b3, b4, b5, b6]"
    by (auto simp: length_7_conv)
  from w have w0: "0 < length (weights m)" by simp
  from wl have wl0: "0 < length (weight_lines m)" "Suc 0 < length (weight_lines m)" by auto
  from sc have len: "\<And>i. i < 10 \<Longrightarrow> i < length (scores m)" by simp
  show ?thesis
  proof (cases p0; cases p1)
    assume "p0 = None" "p1 = None"
    with r0 r1 nc sc w0 wl0 f a arr show ?thesis
      by (simp add: score_defs upt_3 upt_10 replicate_10 weight_line_eq row_or_zero_def nth_append)
  next
    fix ws1 assume "p0 = None" "p1 = Some ws1"
    with r0 r1 nc sc w0 wl0 f a arr show ?thesis
      by (simp add: score_defs upt_3 upt_10 replicate_10 weight_line_eq row_or_zero_def nth_append)
  next
    fix ws0 assume "p0 = Some ws0" "p1 = None"
    with r0 r1 nc sc w0 wl0 f a arr show ?thesis
      by (simp add: score_defs upt_3 upt_10 replicate_10 weight_line_eq row_or_zero_def nth_append)
  next
    fix ws0 ws1 assume "p0 = Some ws0" "p1 = Some ws1"
    with r0 r1 nc sc w0 wl0 f a arr show ?thesis
      by (simp add: score_defs upt_3 upt_10 replicate_10 weight_line_eq row_or_zero_def nth_append)
  qed
qed

text \<open>
  C5. With \<^verbatim>\<open>LINE_SIZE = 7\<close> and 10 classes a feature has two rows, and class 9 is
  column 2 of row 1. A successful update of class 9 of one feature with a delta other
  than 0 changes one row-pointer array of the arena, the array \<open>a\<close> of that feature (a
  fresh array of two null rows when the feature is new): row 1 of it becomes the old
  row 1 (seven zeros when it was absent) with \<open>upd\<close> added in column 2, and row 0 stays
  what it was. Of the meta data of the feature only the cell in column 2 of row 1
  changes. Scoring one feature with the rows \<open>p0\<close> and \<open>p1\<close> returns the seven weights of
  row 0 followed by the first three weights of row 1, and leaves the score buffer
  beyond index 9 as it was.
\<close>

theorem row_boundary_ten_classes:
  "get_row 9 = 1 \<and> get_col 9 = 2 \<and> get_nr_rows 10 = 2 \<and>
   (nr_class m = 10 \<and> upd \<noteq> 0 \<and> update m [(9, [((t, f), upd)])] = Inr m' \<longrightarrow>
      (\<exists>a old ws ft' oldmeta ms.
        (case map_get (train_weights m ! t) f of
           None \<Rightarrow> a = next_block (mem m) \<and> old = [None, None] \<and> oldmeta = [None, None]
         | Some ft \<Rightarrow> a = feat_weights ft \<and> row_arrays (mem m) a = Some old \<and> oldmeta = feat_meta ft) \<and>
        1 < length old \<and>
        ws = (case old ! 1 of None \<Rightarrow> replicate LINE_SIZE 0 | Some ws0 \<Rightarrow> ws0) \<and>
        2 < length ws \<and>
        row_arrays (mem m') = (row_arrays (mem m))(a \<mapsto> old[1 := Some (ws[2 := ws ! 2 + upd])]) \<and>
        map_get (train_weights m' ! t) f = Some ft' \<and> feat_weights ft' = a \<and>
        (case old ! 1 of None \<Rightarrow> ms = replicate LINE_SIZE zero_meta | Some _ \<Rightarrow> oldmeta ! 1 = Some ms) \<and>
        1 < length oldmeta \<and> 2 < length ms \<and>
        feat_meta ft' = oldmeta[1 := Some (ms[2 := \<lparr>
           total = total (ms ! 2) + (model_time m + 1 - time (ms ! 2)) * (ws ! 2),
           count = count (ms ! 2) + 1,
           time = model_time m + 1\<rparr>])])) \<and>
   (nr_class m = 10 \<and> 10 \<le> length (scores m) \<and> 2 \<le> length (weight_lines m) \<and>
    weights m \<noteq> [] \<and> g \<noteq> 0 \<and> map_get (weights m ! 0) g = Some b \<and>
    row_arrays (mem m) b = Some [p0, p1] \<and>
    length (row_or_zero p0) = 7 \<and> length (row_or_zero p1) = 7 \<longrightarrow>
      (\<exists>m''. LinearModel_call m [g] = Inr (row_or_zero p0 @ take 3 (row_or_zero p1), m'') \<and>
         scores m'' = row_or_zero p0 @ take 3 (row_or_zero p1) @ drop 10 (scores m)))"
  using class_9_effect [of m t f upd m'] score_ten_classes [of m g b p0 p1]
  by (simp add: rows_of_9)

theorem row_boundary_ten_classes_witness:
  "nr_class (LinearModel_init 10 1) = 10 \<and> (4::int) \<noteq> 0 \<and>
   update (LinearModel_init 10 1) [(9, [((0, 5), 4)])]
     = Inr ((LinearModel_init 10 1)\<lparr>
         model_time := 1,
         mem := \<lparr>next_block = 1,
                 row_arrays = (\<lambda>a. None)(0 \<mapsto> [None, Some [0, 0, 4, 0, 0, 0, 0]])\<rparr>,
         weights := [[(5, Some 0)]],
         train_weights := [[(5, Some \<lparr>feat_weights = 0, feat_meta = [None, Some
            [zero_meta, zero_meta, \<lparr>total = 0, count = 1, time = 1\<rparr>,
             zero_meta, zero_meta, zero_meta, zero_meta]]\<rparr>)]]\<rparr>) \<and>
   (\<exists>m''. LinearModel_call ((LinearModel_init 10 1)\<lparr>
         model_time := 1,
         mem := \<lparr>next_block = 1,
                 row_arrays = (\<lambda>a. None)(0 \<mapsto> [None, Some [0, 0, 4, 0, 0, 0, 0]])\<rparr>,
         weights := [[(5, Some 0)]],
         train_weights := [[(5, Some \<lparr>feat_weights = 0, feat_meta = [None, Some
            [zero_meta, zero_meta, \<lparr>total = 0, count = 1, time = 1\<rparr>,
             zero_meta, zero_meta, zero_meta, zero_meta]]\<rparr>)]]\<rparr>) [5]
       = Inr ([0, 0, 0, 0, 0, 0, 0, 0, 0, 4], m'') \<and>
       scores m'' = [0, 0, 0, 0, 0, 0, 0, 0, 0, 4])"
proof -
  let ?m = "LinearModel_init 10 1"
  let ?m' = "?m\<lparr>
         model_time := 1,
         mem := \<lparr>next_block = 1,
                 row_arrays = (\<lambda>a. None)(0 \<mapsto> [None, Some [0, 0, 4, 0, 0, 0, 0]])\<rparr>,
         weights := [[(5, Some 0)]],
         train_weights := [[(5, Some \<lparr>feat_weights = 0, feat_meta = [None, Some
            [zero_meta, zero_meta, \<lparr>total = 0, count = 1, time = 1\<rparr>,
             zero_meta, zero_meta, zero_meta, zero_meta]]\<rparr>)]]\<rparr>"
  have up: "update ?m [(9, [((0, 5), 4)])] = Inr ?m'"
    by (simp add: run_defs replicate_2)
  have A: "nr_class ?m = 10 \<and> (4::int) \<noteq> 0 \<and> update ?m [(9, [((0, 5), 4)])] = Inr ?m'"
    using up by (simp add: LinearModel_init_def)
  have B: "nr_class ?m' = 10 \<and> 10 \<le> length (scores ?m') \<and> 2 \<le> length (weight_lines ?m') \<and>
    weights ?m' \<noteq> [] \<and> (5::nat) \<noteq> 0 \<and> map_get (weights ?m' ! 0) 5 = Some 0 \<and>
    row_arrays (mem ?m') 0 = Some [None, Some [0, 0, 4, 0, 0, 0, 0]] \<and>
    length (row_or_zero None) = 7 \<and> length (row_or_zero (Some [0, 0, 4, 0, 0, 0, 0])) = 7"
    by (simp add: LinearModel_init_def map_get_def row_or_zero_def LINE_SIZE_def)
  from row_boundary_ten_classes [of ?m' _ _ _ _ 5 0 None "Some [0, 0, 4, 0, 0, 0, 0]"] B
  have "\<exists>m''. LinearModel_call ?m' [5]
          = Inr (row_or_zero None @ take 3 (row_or_zero (Some [0, 0, 4, 0, 0, 0, 0])), m'') \<and>
         scores m'' = row_or_zero None @ take 3 (row_or_zero (Some [0, 0, 4, 0, 0, 0, 0]))
            @ drop 10 (scores ?m')"
    by blast
  then have "\<exists>m''. LinearModel_call ?m' [5] = Inr ([0, 0, 0, 0, 0, 0, 0, 0, 0, 4], m'') \<and>
       scores m'' = [0, 0, 0, 0, 0, 0, 0, 0, 0, 4]"
    by (simp add: row_or_zero_def replicate_LINE_SIZE LinearModel_init_def)
  with A show ?thesis by blast
qed

section \<open>Scoring does not train\<close>

lemma score_frame:
  "score m buf feats n = Inr (s, m') \<Longrightarrow> m' = m\<lparr>weight_lines := weight_lines m'\<rparr>"
  by (auto simp: score_def err_bind_eq_Inr)

text \<open>
  C10. \<^verbatim>\<open>score\<close> and \<^verbatim>\<open>__call__\<close> write the gather buffer, and \<^verbatim>\<open>__call__\<close> the score
  buffer of the model; every other field of the model (the two feature maps, the arena
  with all weights, the meta data inside the training map, the time counter, the
  cache, the counters) is after the call what it was before.
\<close>

theorem scoring_read_only:
  "(score m buf feats n = Inr (s, m') \<longrightarrow> m' = m\<lparr>weight_lines := weight_lines m'\<rparr>) \<and>
   (LinearModel_call m feats = Inr (py_scores, m'') \<longrightarrow>
      m'' = m\<lparr>weight_lines := weight_lines m'', scores := scores m''\<rparr>)"
proof (intro conjI impI)
  assume "score m buf feats n = Inr (s, m')"
  then show "m' = m\<lparr>weight_lines := weight_lines m'\<rparr>" by (rule score_frame)
next
  assume "LinearModel_call m feats = Inr (py_scores, m'')"
  then obtain s m1 where 1: "score m (scores m) feats (length feats) = Inr (s, m1)"
    and 2: "m'' = m1\<lparr>scores := s\<rparr>"
    by (auto simp: LinearModel_call_def Let_def err_bind_eq_Inr)
  from score_frame [OF 1] 2 have "m'' = m\<lparr>weight_lines := weight_lines m1, scores := s\<rparr>"
    by simp
  with 2 show "m'' = m\<lparr>weight_lines := weight_lines m'', scores := scores m''\<rparr>"
    by simp
qed

theorem scoring_read_only_witness:
  "LinearModel_call
     ((LinearModel_init 10 1)\<lparr>
        weights := [[(5, Some 0)]],
        mem := \<lparr>next_block = 1,
                row_arrays = (\<lambda>a. None)(0 \<mapsto> [None, Some [0, 0, 4, 0, 0, 0, 0]])\<rparr>\<rparr>) [5]
     = Inr ([0, 0, 0, 0, 0, 0, 0, 0, 0, 4],
            (LinearModel_init 10 1)\<lparr>
              weights := [[(5, Some 0)]],
              mem := \<lparr>next_block = 1,
                      row_arrays = (\<lambda>a. None)(0 \<mapsto> [None, Some [0, 0, 4, 0, 0, 0, 0]])\<rparr>,
              weight_lines := (weight_lines (LinearModel_init 10 1))
                 [0 := \<lparr>start = 7, line = [0, 0, 4, 0, 0, 0, 0]\<rparr>],
              scores := [0, 0, 0, 0, 0, 0, 0, 0, 0, 4]\<rparr>) \<and>
   score
     ((LinearModel_init 10 1)\<lparr>
        weights := [[(5, Some 0)]],
        mem := \<lparr>next_block = 1,
                row_arrays = (\<lambda>a. None)(0 \<mapsto> [None, Some [0, 0, 4, 0, 0, 0, 0]])\<rparr>\<rparr>)
     [1, 2, 3, 4, 5, 6, 7, 8, 9, 10, 11] [5] 1
     = Inr ([0, 0, 0, 0, 0, 0, 0, 0, 0, 4, 11],
            (LinearModel_init 10 1)\<lparr>
              weights := [[(5, Some 0)]],
              mem := \<lparr>next_block = 1,
                      row_arrays = (\<lambda>a. None)(0 \<mapsto> [None, Some [0, 0, 4, 0, 0, 0, 0]])\<rparr>,
              weight_lines := (weight_lines (LinearModel_init 10 1))
                 [0 := \<lparr>start = 7, line = [0, 0, 4, 0, 0, 0, 0]\<rparr>]\<rparr>)"
proof -
  let ?m = "(LinearModel_init 10 1)\<lparr>
        weights := [[(5, Some 0)]],
        mem := \<lparr>next_block = 1,
                row_arrays = (\<lambda>a. None)(0 \<mapsto> [None, Some [0, 0, 4, 0, 0, 0, 0]])\<rparr>\<rparr>"
  let ?m' = "?m\<lparr>weight_lines := (weight_lines (LinearModel_init 10 1))
                 [0 := \<lparr>start = 7, line = [0, 0, 4, 0, 0, 0, 0]\<rparr>],
              scores := [0, 0, 0, 0, 0, 0, 0, 0, 0, 4]\<rparr>"
  have 1: "LinearModel_call ?m [5] = Inr ([0, 0, 0, 0, 0, 0, 0, 0, 0, 4], ?m')"
    by (simp add: score_defs map_get_def LinearModel_init_def zero_line_def upt_3 upt_10
        replicate_10 weight_line_eq)
  let ?m1 = "?m\<lparr>weight_lines := (weight_lines (LinearModel_init 10 1))
                 [0 := \<lparr>start = 7, line = [0, 0, 4, 0, 0, 0, 0]\<rparr>]\<rparr>"
  have 2: "score ?m [1, 2, 3, 4, 5, 6, 7, 8, 9, 10, 11] [5] 1
     = Inr ([0, 0, 0, 0, 0, 0, 0, 0, 0, 4, 11], ?m1)"
    by (simp add: score_defs map_get_def LinearModel_init_def zero_line_def upt_3
        replicate_10 weight_line_eq)
  from scoring_read_only [of ?m "[1, 2, 3, 4, 5, 6, 7, 8, 9, 10, 11]" "[5]" 1
      "[0, 0, 0, 0, 0, 0, 0, 0, 0, 4, 11]" ?m1 "[0, 0, 0, 0, 0, 0, 0, 0, 0, 4]" ?m'] 1 2
  show ?thesis by simp
qed

section \<open>Scoring is the sum of the active features' weights\<close>

lemma row_lines_snoc:
  "row_lines (rows @ [p]) = row_lines rows @
     (case p of None \<Rightarrow> [] | Some ws \<Rightarrow> [\<lparr>start = length rows * LINE_SIZE, line = take LINE_SIZE ws\<rparr>])"
  by (simp add: row_lines_def enumerate_append_eq)

lemma row_lines_Nil [simp]: "row_lines [] = []"
  by (simp add: row_lines_def)

lemma length_row_lines: "length (row_lines rows) \<le> length rows"
proof (induction rows rule: rev_induct)
  case Nil
  then show ?case by simp
next
  case (snoc p rows)
  then show ?case by (simp add: row_lines_snoc split: option.splits)
qed

lemma gather_row_None:
  "row_arrays pool a = Some arr \<Longrightarrow> row < length arr \<Longrightarrow> arr ! row = None \<Longrightarrow>
   gather_row pool a row s = Inr s"
  by (cases s) (simp add: gather_row_def read_row_def)

lemma gather_row_Some:
  "row_arrays pool a = Some arr \<Longrightarrow> row < length arr \<Longrightarrow> arr ! row = Some ws \<Longrightarrow>
   LINE_SIZE \<le> length ws \<Longrightarrow> k < length wl \<Longrightarrow>
   gather_row pool a row (wl, k)
     = Inr (wl[k := \<lparr>start = row * LINE_SIZE, line = take LINE_SIZE ws\<rparr>], Suc k)"
  by (simp add: gather_row_def read_row_def weight_line_eq)

lemma gather_rows:
  assumes "row_arrays pool a = Some arr" and "n \<le> length arr"
    and "\<forall>ws \<in> set arr. \<forall>w. ws = Some w \<longrightarrow> LINE_SIZE \<le> length w"
    and "k + n \<le> length wl"
  shows "\<exists>wl'. for_each [0..<n] (gather_row pool a) (wl, k)
            = Inr (wl', k + length (row_lines (take n arr))) \<and>
          length wl' = length wl \<and>
          take (k + length (row_lines (take n arr))) wl' = take k wl @ row_lines (take n arr)"
  using assms(2,4)
proof (induction n)
  case 0
  then show ?case by simp
next
  case (Suc n)
  then obtain wl1 where 1: "for_each [0..<n] (gather_row pool a) (wl, k)
            = Inr (wl1, k + length (row_lines (take n arr)))"
    and 2: "length wl1 = length wl"
    and 3: "take (k + length (row_lines (take n arr))) wl1 = take k wl @ row_lines (take n arr)"
    by auto
  from Suc.prems have n: "n < length arr" by simp
  let ?k1 = "k + length (row_lines (take n arr))"
  have k1: "?k1 < length wl1"
    using length_row_lines [of "take n arr"] Suc.prems 2 n by simp
  show ?case
  proof (cases "arr ! n")
    case None
    with 1 2 3 n assms(1) show ?thesis
      by (simp add: for_each_snoc take_Suc_conv_app_nth row_lines_snoc gather_row_None)
  next
    case (Some ws)
    with assms(3) n have "LINE_SIZE \<le> length ws"
      by (metis nth_mem)
    with Some 1 2 3 n k1 assms(1) show ?thesis
      by (simp add: for_each_snoc take_Suc_conv_app_nth row_lines_snoc gather_row_Some
          take_Suc_conv_app_nth [of ?k1])
  qed
qed

lemma length_feature_rows: "length (feature_rows m t f) \<le> get_nr_rows (nr_class m)"
  by (simp add: feature_rows_def split: option.splits)

lemma length_gathered: "length (gathered m feats n) \<le> n * get_nr_rows (nr_class m)"
proof (induction n)
  case 0
  then show ?case by (simp add: gathered_def)
next
  case (Suc n)
  have "length (row_lines (feature_rows m n (feats ! n))) \<le> get_nr_rows (nr_class m)"
    using length_row_lines [of "feature_rows m n (feats ! n)"] length_feature_rows [of m n "feats ! n"]
    by simp
  with Suc show ?case by (simp add: gathered_def)
qed

lemma gathered_Suc:
  "gathered m feats (Suc n) = gathered m feats n @ row_lines (feature_rows m n (feats ! n))"
  by (simp add: gathered_def)

lemma gather_feature_rows:
  assumes "scorable m" and "t < length feats" and "t < length (weights m)"
    and "k + get_nr_rows (nr_class m) \<le> length wl"
  shows "\<exists>wl'. gather_feature m feats t (wl, k)
            = Inr (wl', k + length (row_lines (feature_rows m t (feats ! t)))) \<and>
          length wl' = length wl \<and>
          take (k + length (row_lines (feature_rows m t (feats ! t)))) wl'
            = take k wl @ row_lines (feature_rows m t (feats ! t))"
proof (cases "feats ! t = 0")
  case True
  with assms(2) show ?thesis
    by (simp add: gather_feature_def feature_rows_def)
next
  case False
  show ?thesis
  proof (cases "map_get (weights m ! t) (feats ! t)")
    case None
    with False assms(2,3) show ?thesis
      by (simp add: gather_feature_def feature_rows_def array_get_def)
  next
    case (Some a)
    with assms(1,3) obtain arr where arr: "row_arrays (mem m) a = Some arr"
      "get_nr_rows (nr_class m) \<le> length arr"
      "\<forall>ws \<in> set arr. \<forall>w. ws = Some w \<longrightarrow> length w = LINE_SIZE"
      unfolding scorable_def by blast
    from arr(3) have "\<forall>ws \<in> set arr. \<forall>w. ws = Some w \<longrightarrow> LINE_SIZE \<le> length w"
      by auto
    from gather_rows [OF arr(1) arr(2) this assms(4)] Some False assms(2,3) arr(1)
    show ?thesis
      by (simp add: gather_feature_def feature_rows_def array_get_def)
  qed
qed

lemma gather_weights_gathered:
  assumes "scorable m" and "n \<le> length feats" and "n \<le> length (weights m)"
    and "n * get_nr_rows (nr_class m) \<le> length wl"
  shows "\<exists>wl'. gather_weights m wl feats n = Inr (wl', length (gathered m feats n)) \<and>
          length wl' = length wl \<and>
          take (length (gathered m feats n)) wl' = gathered m feats n"
  unfolding gather_weights_def
  using assms(2-4)
proof (induction n)
  case 0
  then show ?case by (simp add: gathered_def)
next
  case (Suc n)
  then obtain wl1 where 1: "for_each [0..<n] (gather_feature m feats) (wl, 0)
        = Inr (wl1, length (gathered m feats n))"
    and 2: "length wl1 = length wl"
    and 3: "take (length (gathered m feats n)) wl1 = gathered m feats n"
    by auto
  have "length (gathered m feats n) + get_nr_rows (nr_class m) \<le> length wl1"
    using length_gathered [of m feats n] Suc.prems(3) 2 by simp
  from gather_feature_rows [OF assms(1) _ _ this, of n feats] Suc.prems 1 2 3
  show ?case
    by (auto simp: for_each_snoc gathered_Suc)
qed

lemma add_score_loop:
  assumes "st + k \<le> length sc" and "k \<le> length (line wl)"
  shows "\<exists>sc'. for_each [0..<k] (add_score st wl) sc = Inr sc' \<and> length sc' = length sc \<and>
          (\<forall>c < length sc. sc' ! c = sc ! c + (if st \<le> c \<and> c < st + k then line wl ! (c - st) else 0))"
  using assms
proof (induction k)
  case 0
  then show ?case by simp
next
  case (Suc k)
  then obtain sc1 where 1: "for_each [0..<k] (add_score st wl) sc = Inr sc1"
    and 2: "length sc1 = length sc"
    and 3: "\<forall>c < length sc. sc1 ! c = sc ! c + (if st \<le> c \<and> c < st + k then line wl ! (c - st) else 0)"
    by auto
  from Suc.prems 2 have "add_score st wl k sc1 = Inr (sc1[st + k := sc1 ! (st + k) + line wl ! k])"
    by (simp add: add_score_def)
  with 1 2 3 Suc.prems show ?case
    by (auto simp: for_each_snoc nth_list_update)
qed

lemma set_scores_row_contrib:
  assumes "row < length wls" and "length (line (wls ! row)) = LINE_SIZE"
    and "start (wls ! row) \<le> nc" and "nc \<le> length sc"
  shows "\<exists>sc'. set_scores_row wls nc row sc = Inr sc' \<and> length sc' = length sc \<and>
          (\<forall>c < nc. sc' ! c = sc ! c + contrib (wls ! row) c) \<and>
          (\<forall>c. nc \<le> c \<longrightarrow> c < length sc \<longrightarrow> sc' ! c = sc ! c)"
proof (cases "start (wls ! row) + LINE_SIZE < nc")
  case True
  with assms have "start (wls ! row) + 7 \<le> length sc" "7 \<le> length (line (wls ! row))"
    by (simp_all add: LINE_SIZE_def)
  from add_score_loop [OF this] obtain sc' where
    1: "for_each [0..<7] (add_score (start (wls ! row)) (wls ! row)) sc = Inr sc'"
    and 2: "length sc' = length sc"
    and 3: "\<forall>c < length sc. sc' ! c = sc ! c +
        (if start (wls ! row) \<le> c \<and> c < start (wls ! row) + 7
         then line (wls ! row) ! (c - start (wls ! row)) else 0)"
    by blast
  have "set_scores_row wls nc row sc
      = for_each [0..<7] (add_score (start (wls ! row)) (wls ! row)) sc"
    using True assms(1) by (simp add: set_scores_row_def Let_def upt_7)
  with 1 have "set_scores_row wls nc row sc = Inr sc'" by simp
  moreover from 3 True assms(4) have "\<forall>c < nc. sc' ! c = sc ! c + contrib (wls ! row) c"
    by (auto simp: contrib_def LINE_SIZE_def)
  moreover from 3 True have "\<forall>c. nc \<le> c \<longrightarrow> c < length sc \<longrightarrow> sc' ! c = sc ! c"
    by (auto simp: LINE_SIZE_def)
  ultimately show ?thesis using 2 by blast
next
  case False
  with assms have "start (wls ! row) + (nc - start (wls ! row)) \<le> length sc"
    "nc - start (wls ! row) \<le> length (line (wls ! row))"
    by simp_all
  from add_score_loop [OF this] False assms show ?thesis
    by (auto simp: set_scores_row_def Let_def contrib_def)
qed

lemma set_scores_rows:
  assumes "n \<le> length wls" and "\<forall>wl \<in> set (take n wls). length (line wl) = LINE_SIZE \<and> start wl \<le> nc"
    and "nc \<le> length sc"
  shows "\<exists>sc'. for_each [0..<n] (set_scores_row wls nc) sc = Inr sc' \<and> length sc' = length sc \<and>
          (\<forall>c < nc. sc' ! c = sc ! c + sum_list (map (\<lambda>wl. contrib wl c) (take n wls))) \<and>
          (\<forall>c. nc \<le> c \<longrightarrow> c < length sc \<longrightarrow> sc' ! c = sc ! c)"
  using assms(1,2)
proof (induction n)
  case 0
  then show ?case by simp
next
  case (Suc n)
  from Suc.prems have n: "n < length wls" by simp
  with Suc.prems have pre: "\<forall>wl \<in> set (take n wls). length (line wl) = LINE_SIZE \<and> start wl \<le> nc"
    and last: "length (line (wls ! n)) = LINE_SIZE" "start (wls ! n) \<le> nc"
    by (simp_all add: take_Suc_conv_app_nth)
  from Suc.IH [OF _ pre] n obtain sc1 where 1: "for_each [0..<n] (set_scores_row wls nc) sc = Inr sc1"
    and 2: "length sc1 = length sc"
    and 3: "\<forall>c < nc. sc1 ! c = sc ! c + sum_list (map (\<lambda>wl. contrib wl c) (take n wls))"
    and 4: "\<forall>c. nc \<le> c \<longrightarrow> c < length sc \<longrightarrow> sc1 ! c = sc ! c"
    by auto
  from assms(3) 2 have "nc \<le> length sc1" by simp
  from set_scores_row_contrib [OF n last this] 1 2 3 4 n show ?case
    by (auto simp: for_each_snoc take_Suc_conv_app_nth)
qed

lemma row_start_le: "r < get_nr_rows n \<Longrightarrow> r * LINE_SIZE \<le> n"
proof -
  assume r: "r < get_nr_rows n"
  have "n div 7 * 7 \<le> n" by simp
  moreover from r have "r \<le> n div 7"
    by (auto simp: get_nr_rows_def get_row_def LINE_SIZE_def Let_def split: if_splits)
  ultimately show ?thesis
    by (metis LINE_SIZE_def le_trans mult_le_mono1)
qed

lemma row_lines_ok:
  assumes "\<forall>ws \<in> set rows. \<forall>w. ws = Some w \<longrightarrow> length w = LINE_SIZE"
    and "length rows \<le> get_nr_rows nc"
  shows "\<forall>wl \<in> set (row_lines rows). length (line wl) = LINE_SIZE \<and> start wl \<le> nc"
  using assms
proof (induction rows rule: rev_induct)
  case Nil
  then show ?case by simp
next
  case (snoc p rows)
  then have "length rows < get_nr_rows nc" by simp
  then have "length rows * LINE_SIZE \<le> nc" by (rule row_start_le)
  with snoc show ?case
    by (auto simp: row_lines_snoc split: option.splits)
qed

lemma in_row_iff: "r * LINE_SIZE \<le> c \<and> c < r * LINE_SIZE + LINE_SIZE \<longleftrightarrow> get_row c = r"
  unfolding get_row_def LINE_SIZE_def
proof
  assume "r * 7 \<le> c \<and> c < r * 7 + 7"
  then show "c div 7 = r"
    by (intro div_nat_eqI) (simp_all add: mult.commute)
next
  assume "c div 7 = r"
  then have "r * 7 = c - c mod 7" by (simp add: minus_mod_eq_div_mult)
  moreover have "c mod 7 < 7" by simp
  moreover have "c mod 7 \<le> c" by simp
  ultimately show "r * 7 \<le> c \<and> c < r * 7 + 7" by linarith
qed

lemma in_row_col: "get_row c = r \<Longrightarrow> c - r * LINE_SIZE = get_col c"
  unfolding get_row_def get_col_def LINE_SIZE_def
  by (auto simp: minus_div_mult_eq_mod)

lemma sum_contrib_row_lines:
  assumes "\<forall>ws \<in> set rows. \<forall>w. ws = Some w \<longrightarrow> length w = LINE_SIZE"
  shows "sum_list (map (\<lambda>wl. contrib wl c) (row_lines rows)) = cell rows c"
  using assms
proof (induction rows rule: rev_induct)
  case Nil
  then show ?case by (simp add: cell_def)
next
  case (snoc p rows)
  then have IH: "sum_list (map (\<lambda>wl. contrib wl c) (row_lines rows)) = cell rows c"
    by simp
  show ?case
  proof (cases "get_row c < length rows")
    case True
    then have "\<not> (length rows * LINE_SIZE \<le> c \<and> c < length rows * LINE_SIZE + LINE_SIZE)"
      by (simp add: in_row_iff)
    with True IH show ?thesis
      by (auto simp: row_lines_snoc cell_def contrib_def nth_append split: option.splits)
  next
    case False
    with IH have 0: "sum_list (map (\<lambda>wl. contrib wl c) (row_lines rows)) = 0"
      by (simp add: cell_def)
    show ?thesis
    proof (cases "get_row c = length rows")
      case True
      then have in_row: "length rows * LINE_SIZE \<le> c \<and> c < length rows * LINE_SIZE + LINE_SIZE"
        by (simp add: in_row_iff)
      from True have col: "c - length rows * LINE_SIZE = get_col c"
        by (rule in_row_col)
      show ?thesis
      proof (cases p)
        case None
        with 0 True show ?thesis by (simp add: row_lines_snoc cell_def)
      next
        case (Some ws)
        with snoc.prems have "length ws = LINE_SIZE" by simp
        with Some 0 True in_row col get_col_less [of c] show ?thesis
          by (simp add: row_lines_snoc cell_def contrib_def)
      qed
    next
      case neq: False
      with False have "\<not> (length rows * LINE_SIZE \<le> c \<and> c < length rows * LINE_SIZE + LINE_SIZE)"
        by (simp add: in_row_iff)
      with 0 False neq show ?thesis
        by (auto simp: row_lines_snoc cell_def contrib_def split: option.splits)
    qed
  qed
qed

lemma feature_rows_ok:
  assumes "scorable m" and "t < length (weights m)"
  shows "\<forall>ws \<in> set (feature_rows m t f). \<forall>w. ws = Some w \<longrightarrow> length w = LINE_SIZE"
proof (cases "f = 0")
  case True
  then show ?thesis by (simp add: feature_rows_def)
next
  case False
  show ?thesis
  proof (cases "map_get (weights m ! t) f")
    case None
    with False show ?thesis by (simp add: feature_rows_def)
  next
    case (Some a)
    with assms obtain arr where "row_arrays (mem m) a = Some arr"
      "\<forall>ws \<in> set arr. \<forall>w. ws = Some w \<longrightarrow> length w = LINE_SIZE"
      unfolding scorable_def by blast
    with Some False show ?thesis
      by (auto simp: feature_rows_def dest: in_set_takeD)
  qed
qed

lemma gathered_ok:
  assumes "scorable m" and "n \<le> length (weights m)"
  shows "\<forall>wl \<in> set (gathered m feats n). length (line wl) = LINE_SIZE \<and> start wl \<le> nr_class m"
proof -
  have "\<forall>wl \<in> set (row_lines (feature_rows m t (feats ! t))).
          length (line wl) = LINE_SIZE \<and> start wl \<le> nr_class m" if "t < n" for t
    using that assms feature_rows_ok [of m t "feats ! t"] length_feature_rows [of m t "feats ! t"]
    by (intro row_lines_ok) simp_all
  then show ?thesis
    by (auto simp: gathered_def)
qed

lemma sum_gathered:
  assumes "scorable m" and "n \<le> length (weights m)"
  shows "sum_list (map (\<lambda>wl. contrib wl c) (gathered m feats n))
       = sum_list (map (\<lambda>t. cell (feature_rows m t (feats ! t)) c) [0..<n])"
  using assms(2)
proof (induction n)
  case 0
  then show ?case by (simp add: gathered_def)
next
  case (Suc n)
  then have "n < length (weights m)" by simp
  from sum_contrib_row_lines [OF feature_rows_ok [OF assms(1) this]] Suc show ?case
    by (simp add: gathered_Suc)
qed

lemma call_score_of:
  assumes "scorable m" and "length feats \<le> length (weights m)"
    and "length feats * get_nr_rows (nr_class m) \<le> length (weight_lines m)"
    and "nr_class m \<le> length (scores m)"
  shows "\<exists>m'. LinearModel_call m feats = Inr (score_of m feats, m')"
proof -
  let ?G = "gathered m feats (length feats)"
  let ?nc = "nr_class m"
  from gather_weights_gathered [OF assms(1) _ assms(2,3)] obtain wl' where
    g: "gather_weights m (weight_lines m) feats (length feats) = Inr (wl', length ?G)"
    and tk: "take (length ?G) wl' = ?G"
    by auto
  from arg_cong [OF tk, of length] have len: "length ?G \<le> length wl'"
    by simp
  have ok: "\<forall>wl \<in> set (take (length ?G) wl'). length (line wl) = LINE_SIZE \<and> start wl \<le> ?nc"
    using gathered_ok [OF assms(1,2), of feats] tk by simp
  let ?sc = "replicate ?nc 0 @ drop ?nc (scores m)"
  have "?nc \<le> length ?sc" by simp
  from set_scores_rows [OF len ok this] obtain sc' where
    s: "for_each [0..<length ?G] (set_scores_row wl' ?nc) ?sc = Inr sc'"
    and l: "length sc' = length ?sc"
    and v: "\<forall>c < ?nc. sc' ! c = ?sc ! c + sum_list (map (\<lambda>wl. contrib wl c) (take (length ?G) wl'))"
    by blast
  from v tk have v': "\<forall>c < ?nc. sc' ! c = sum_list (map (\<lambda>wl. contrib wl c) ?G)"
    by (simp add: nth_append)
  from l have nc: "?nc \<le> length sc'" by simp
  have "take ?nc sc' = score_of m feats"
  proof (rule nth_equalityI)
    show "length (take ?nc sc') = length (score_of m feats)"
      using nc by (simp add: score_of_def)
  next
    fix i assume "i < length (take ?nc sc')"
    with nc have i: "i < ?nc" by simp
    with v' sum_gathered [OF assms(1,2), of i feats] show "take ?nc sc' ! i = score_of m feats ! i"
      by (simp add: score_of_def)
  qed
  with g s assms(4) nc show ?thesis
    by (simp add: LinearModel_call_def score_def set_scores_def Let_def copy_scores)
qed

section \<open>Printing and parsing numbers\<close>

lemma of_char_digit_char: "d < 10 \<Longrightarrow> (of_char (digit_char d) :: nat) = 48 + d"
  by (simp add: digit_char_def)

lemma isdigit_digit_char: "d < 10 \<Longrightarrow> isdigit (digit_char d)"
  by (simp add: isdigit_def of_char_digit_char)

lemma digit_val_digit_char: "d < 10 \<Longrightarrow> digit_val (digit_char d) = d"
  by (simp add: digit_val_def of_char_digit_char)

lemma special_chars:
  "\<not> isdigit tab" "\<not> isdigit newline" "\<not> isdigit CHR ''-''" "\<not> isdigit CHR ''+''"
  "isspace tab" "isspace newline" "tab \<noteq> newline" "tab \<noteq> CHR ''-''"
  "\<not> isspace CHR ''-''" "\<not> isspace CHR ''+''"
  by (simp_all add: isdigit_def isspace_def tab_def newline_def)

lemma isdigit_not_special:
  assumes "isdigit c"
  shows "c \<noteq> tab" "c \<noteq> newline" "c \<noteq> CHR ''-''" "c \<noteq> CHR ''+''" "\<not> isspace c"
  using assms by (auto simp: isdigit_def isspace_def tab_def newline_def)

lemma str_nat_digits: "\<forall>c \<in> set (str_nat n). isdigit c"
proof (induction n rule: str_nat.induct)
  case (1 n)
  show ?case
  proof (cases "n < 10")
    case True
    then show ?thesis by (subst str_nat.simps) (simp add: isdigit_digit_char)
  next
    case False
    with 1 show ?thesis
      by (subst str_nat.simps) (simp add: isdigit_digit_char)
  qed
qed

lemma str_nat_not_Nil: "str_nat n \<noteq> []"
  by (subst str_nat.simps) simp

lemma digits_value_append:
  "\<forall>c \<in> set ds. isdigit c \<Longrightarrow>
   digits_value (ds @ rest) acc = digits_value rest (foldl (\<lambda>a c. a * 10 + digit_val c) acc ds)"
  by (induction ds arbitrary: acc) simp_all

lemma foldl_str_nat:
  "foldl (\<lambda>a c. a * 10 + digit_val c) acc (str_nat n) = acc * 10 ^ length (str_nat n) + n"
proof (induction n arbitrary: acc rule: str_nat.induct)
  case (1 n)
  show ?case
  proof (cases "n < 10")
    case True
    then show ?thesis by (subst (1 2) str_nat.simps) (simp add: digit_val_digit_char)
  next
    case False
    with 1 [of acc] show ?thesis
      by (subst (1 2) str_nat.simps) (simp add: digit_val_digit_char algebra_simps)
  qed
qed

lemma digits_value_stop: "rest = [] \<or> \<not> isdigit (hd rest) \<Longrightarrow> digits_value rest acc = acc"
  by (cases rest) auto

lemma digits_value_str_nat:
  "rest = [] \<or> \<not> isdigit (hd rest) \<Longrightarrow> digits_value (str_nat n @ rest) 0 = n"
  by (simp add: digits_value_append str_nat_digits foldl_str_nat digits_value_stop)

lemma str_nat_hd: "\<exists>c cs. str_nat n = c # cs \<and> isdigit c"
  using str_nat_not_Nil [of n] str_nat_digits [of n] by (cases "str_nat n") auto

lemma strtoul_str_nat: "strtoul (str_nat n) = n"
proof -
  from str_nat_hd obtain c cs where s: "str_nat n = c # cs" and c: "isdigit c" by blast
  from digits_value_str_nat [of "[]" n] s have "digits_value (c # cs) 0 = n" by simp
  with s c isdigit_not_special [OF c] show ?thesis
    by (simp add: strtoul_def)
qed

lemma atoi_str_nat:
  "rest = [] \<or> \<not> isdigit (hd rest) \<Longrightarrow> atoi (str_nat n @ rest) = int n"
proof -
  assume r: "rest = [] \<or> \<not> isdigit (hd rest)"
  from str_nat_hd obtain c cs where s: "str_nat n = c # cs" and c: "isdigit c" by blast
  from digits_value_str_nat [OF r, of n] s have "digits_value (c # cs @ rest) 0 = n" by simp
  with s c isdigit_not_special [OF c] show ?thesis
    by (simp add: atoi_def)
qed

lemma atoi_str_int:
  "rest = [] \<or> \<not> isdigit (hd rest) \<Longrightarrow> atoi (str_int k @ rest) = k"
  by (simp add: str_int_def atoi_str_nat)
     (simp add: atoi_def special_chars digits_value_str_nat)

lemma tab_notin_str_nat: "tab \<notin> set (str_nat n)"
  using str_nat_digits [of n] special_chars(1) by blast

lemma tab_notin_str_int: "tab \<notin> set (str_int k)"
  by (simp add: str_int_def tab_notin_str_nat special_chars)

lemma str_int_not_Nil: "str_int k \<noteq> []"
  by (simp add: str_int_def str_nat_not_Nil)

lemma digit_char_0: "digit_char 0 = CHR ''0''"
  by (rule of_char_eqI [where ?'a = nat]) (simp add: digit_char_def)

lemma str_nat_0: "str_nat 0 = ''0''"
  by (subst str_nat.simps) (simp add: digit_char_0)

lemma str_int_zero: "str_int k = ''0'' \<longleftrightarrow> k = 0"
proof
  assume "str_int k = ''0''"
  with atoi_str_int [of "[]" k] have "atoi ''0'' = k" by simp
  then show "k = 0" by (simp add: atoi_def isspace_def isdigit_def digit_val_def)
next
  assume "k = 0"
  then show "str_int k = ''0''" by (simp add: str_int_def str_nat_0)
qed

lemma strtok_field:
  assumes "f \<noteq> []" and "tab \<notin> set f"
  shows "strtok (f @ tab # rest) = Some (f, rest)"
proof -
  from assms obtain c cs where f: "f = c # cs" and c: "c \<noteq> tab"
    by (cases f) auto
  from assms(2) have all: "\<forall>x \<in> set f. x \<noteq> tab" by auto
  have 1: "dropWhile (\<lambda>c. c = tab) (f @ tab # rest) = f @ tab # rest"
    using f c by simp
  have 2: "takeWhile (\<lambda>c. c \<noteq> tab) (f @ tab # rest) = f"
    using all by (simp add: takeWhile_append2)
  have 3: "dropWhile (\<lambda>c. c \<noteq> tab) (f @ tab # rest) = tab # rest"
    using all by (simp add: dropWhile_append2)
  from 1 2 3 assms(1) show ?thesis
    by (simp add: strtok_def Let_def)
qed

lemma strtok_last:
  assumes "f \<noteq> []" and "tab \<notin> set f"
  shows "strtok f = Some (f, [])"
proof -
  from assms obtain c cs where f: "f = c # cs" and c: "c \<noteq> tab"
    by (cases f) auto
  from assms(2) have all: "\<forall>x \<in> set f. x \<noteq> tab" by auto
  have 1: "dropWhile (\<lambda>c. c = tab) f = f"
    using f c by simp
  have 2: "takeWhile (\<lambda>c. c \<noteq> tab) f = f"
    using all by (simp add: takeWhile_eq_all_conv)
  have 3: "dropWhile (\<lambda>c. c \<noteq> tab) f = []"
    using all by (simp add: dropWhile_eq_Nil_conv)
  from assms(1) show ?thesis
    by (simp add: strtok_def Let_def 1 2 3)
qed

section \<open>Loading a dumped line\<close>

lemma next_token_field [simp]:
  "f \<noteq> [] \<Longrightarrow> tab \<notin> set f \<Longrightarrow> next_token (f @ tab # rest) = Inr (f, rest)"
  by (simp add: next_token_def strtok_field)

lemma next_token_last [simp]:
  "f \<noteq> [] \<Longrightarrow> tab \<notin> set f \<Longrightarrow> next_token f = Inr (f, [])"
  by (simp add: next_token_def strtok_last)

lemma load_weights_row:
  assumes "row_arrays pool a = Some arr" and "row < length arr" and "length ws = LINE_SIZE"
  shows "err_bind (write_row pool a row (replicate LINE_SIZE 0)) (\<lambda>pool.
           for_each [0..<LINE_SIZE] (load_weight a row) (join [tab] (map str_int ws) @ [newline], pool))
         = Inr ([], pool\<lparr>row_arrays := (row_arrays pool)(a \<mapsto> arr[row := Some ws])\<rparr>)"
proof -
  from assms(3) obtain w0 w1 w2 w3 w4 w5 w6 where ws: "ws = [w0, w1, w2, w3, w4, w5, w6]"
    by (auto simp: LINE_SIZE_def length_7_conv)
  have last: "next_token (str_int w6 @ [newline]) = Inr (str_int w6 @ [newline], [])"
    by (rule next_token_last) (simp_all add: tab_notin_str_int special_chars)
  have at: "atoi (str_int k @ [newline]) = k" for k
    by (rule atoi_str_int) (simp add: special_chars)
  have at0: "atoi (str_int k) = k" for k
    using atoi_str_int [of "[]" k] by simp
  show ?thesis
    using assms(1,2)
    by (simp add: ws upt_LINE_SIZE replicate_LINE_SIZE load_weight_def write_row_def
        write_weight_def read_row_def last at at0 str_int_not_Nil tab_notin_str_int)
qed

lemma load_line_rendered:
  assumes "length ws = LINE_SIZE"
  shows "load_line thr n (render_line freq t f row ws) m =
     (if 1 \<le> thr \<and> freq < thr then Inr m
      else err_bind (load_feature m n t f) (\<lambda>(a, m1).
           err_bind (write_row (mem m1) a row (replicate LINE_SIZE 0)) (\<lambda>pool.
           err_bind (for_each [0..<LINE_SIZE] (load_weight a row)
                       (join [tab] (map str_int ws) @ [newline], pool)) (\<lambda>(rest, pool).
           Inr (m1\<lparr>mem := pool\<rparr>)))))"
proof -
  from assms obtain w0 w1 w2 w3 w4 w5 w6 where ws: "ws = [w0, w1, w2, w3, w4, w5, w6]"
    by (auto simp: LINE_SIZE_def length_7_conv)
  show ?thesis
    by (simp add: ws render_line_def load_line_def Let_def str_nat_not_Nil tab_notin_str_nat
        strtoul_str_nat)
qed

lemma load_line_known:
  assumes "length ws = LINE_SIZE" and "t < length (weights m)"
    and "map_get (weights m ! t) f = Some a" and "row_arrays (mem m) a = Some arr"
    and "row < length arr"
  shows "load_line 0 n (render_line freq t f row ws) m
       = Inr (m\<lparr>mem := (mem m)\<lparr>row_arrays := (row_arrays (mem m))(a \<mapsto> arr[row := Some ws])\<rparr>\<rparr>)"
  using load_weights_row [OF assms(4,5,1)] assms(2,3)
  by (simp add: load_line_rendered [OF assms(1)] load_feature_def array_get_def
      err_bind_eq_Inr split: sum.splits)
     (auto simp: err_bind_def split: sum.splits)

lemma load_line_new:
  assumes "length ws = LINE_SIZE" and "t < length (weights m)"
    and "map_get (weights m ! t) f = None" and "row < n"
  shows "load_line 0 n (render_line freq t f row ws) m
       = Inr (m\<lparr>mem := (mem m)\<lparr>next_block := Suc (next_block (mem m)),
                    row_arrays := (row_arrays (mem m))(next_block (mem m) \<mapsto>
                       (replicate n None)[row := Some ws])\<rparr>,
                weights := (weights m)[t := map_set (weights m ! t) f (next_block (mem m))]\<rparr>)"
proof -
  let ?a = "next_block (mem m)"
  let ?pool = "(mem m)\<lparr>next_block := Suc ?a, row_arrays := (row_arrays (mem m))(?a \<mapsto> replicate n None)\<rparr>"
  let ?m1 = "m\<lparr>mem := ?pool, weights := (weights m)[t := map_set (weights m ! t) f ?a]\<rparr>"
  have lf: "load_feature m n t f = Inr (?a, ?m1)"
    using assms(2,3) by (simp add: load_feature_def array_get_def array_set_def alloc_row_array_def)
  have "row_arrays ?pool ?a = Some (replicate n None)" by simp
  from load_weights_row [OF this _ assms(1), of row] assms(4)
  have "err_bind (write_row ?pool ?a row (replicate LINE_SIZE 0)) (\<lambda>pool.
           for_each [0..<LINE_SIZE] (load_weight ?a row) (join [tab] (map str_int ws) @ [newline], pool))
         = Inr ([], ?pool\<lparr>row_arrays := (row_arrays ?pool)(?a \<mapsto> (replicate n None)[row := Some ws])\<rparr>)"
    by simp
  then show ?thesis
    by (simp add: load_line_rendered [OF assms(1)] lf)
       (auto simp: err_bind_def split: sum.splits)
qed

lemma rows_ok_update:
  assumes "\<forall>ws \<in> set arr. \<forall>w. ws = Some w \<longrightarrow> length w = LINE_SIZE" and "length v = LINE_SIZE"
  shows "\<forall>ws \<in> set (arr[row := Some v]). \<forall>w. ws = Some w \<longrightarrow> length w = LINE_SIZE"
proof (intro ballI allI impI)
  fix ws w assume "ws \<in> set (arr[row := Some v])" and "ws = Some w"
  then have "Some w \<in> insert (Some v) (set arr)"
    using set_update_subset_insert by fastforce
  with assms show "length w = LINE_SIZE" by auto
qed

lemma load_step_known:
  assumes inv: "loadable m n" and t: "t < length (weights m)" and row: "row < n"
    and ws: "length ws = LINE_SIZE" and a: "map_get (weights m ! t) f = Some a"
  shows "\<exists>m'. load_line 0 n (render_line freq t f row ws) m = Inr m' \<and> loadable m' n \<and>
      weights m' = weights m \<and> nr_class m' = nr_class m \<and> nr_templates m' = nr_templates m \<and>
      scores m' = scores m \<and> weight_lines m' = weight_lines m \<and>
      (\<forall>t' < length (weights m). \<forall>f'. stored_rows m' t' f'
           = put_row n (freq, t, f, row, ws) (\<lambda>(t, f). stored_rows m t f) (t', f'))"
proof -
  from inv t a obtain arr where arr: "row_arrays (mem m) a = Some arr" "length arr = n"
    "\<forall>ws \<in> set arr. \<forall>w. ws = Some w \<longrightarrow> length w = LINE_SIZE" and lt: "a < next_block (mem m)"
    unfolding loadable_def by blast
  let ?m' = "m\<lparr>mem := (mem m)\<lparr>row_arrays := (row_arrays (mem m))(a \<mapsto> arr[row := Some ws])\<rparr>\<rparr>"
  from arr row have 1: "load_line 0 n (render_line freq t f row ws) m = Inr ?m'"
    by (intro load_line_known [OF ws t a]) simp_all
  have ok: "\<forall>x \<in> set (arr[row := Some ws]). \<forall>w. x = Some w \<longrightarrow> length w = LINE_SIZE"
    by (rule rows_ok_update [OF arr(3) ws])
  have 2: "loadable ?m' n"
  proof -
    have "a' < next_block (mem ?m') \<and>
        (\<exists>arr. row_arrays (mem ?m') a' = Some arr \<and> length arr = n \<and>
           (\<forall>ws \<in> set arr. \<forall>w. ws = Some w \<longrightarrow> length w = LINE_SIZE))"
      if "t' < length (weights ?m')" "map_get (weights ?m' ! t') f' = Some a'" for t' f' a'
    proof -
      from that have *: "t' < length (weights m)" "map_get (weights m ! t') f' = Some a'" by simp_all
      with inv obtain arr' where "a' < next_block (mem m)" "row_arrays (mem m) a' = Some arr'"
        "length arr' = n" "\<forall>ws \<in> set arr'. \<forall>w. ws = Some w \<longrightarrow> length w = LINE_SIZE"
        unfolding loadable_def by blast
      with ok arr show ?thesis
        by (cases "a' = a") simp_all
    qed
    moreover have "t1 = t2 \<and> f1 = f2"
      if "t1 < length (weights ?m')" "t2 < length (weights ?m')"
        "map_get (weights ?m' ! t1) f1 = Some a'" "map_get (weights ?m' ! t2) f2 = Some a'"
      for t1 t2 f1 f2 a'
      using that inv unfolding loadable_def by auto
    ultimately show ?thesis
      unfolding loadable_def by blast
  qed
  have 3: "stored_rows ?m' t' f' = put_row n (freq, t, f, row, ws) (\<lambda>(t, f). stored_rows m t f) (t', f')"
    if t': "t' < length (weights m)" for t' f'
  proof (cases "t' = t \<and> f' = f")
    case True
    with a arr show ?thesis by (simp add: stored_rows_def put_row_def)
  next
    case False
    have "a' \<noteq> a" if "map_get (weights m ! t') f' = Some a'" for a'
      using inv t t' a that False unfolding loadable_def by blast
    with False show ?thesis
      by (auto simp: stored_rows_def put_row_def split: option.splits)
  qed
  from 1 2 3 show ?thesis by auto
qed

lemma rows_ok_fresh:
  assumes "length v = LINE_SIZE"
  shows "\<forall>ws \<in> set ((replicate n None)[row := Some v]). \<forall>w. ws = Some w \<longrightarrow> length w = LINE_SIZE"
  by (rule rows_ok_update [OF _ assms]) simp

lemma load_step_new:
  assumes inv: "loadable m n" and t: "t < length (weights m)" and row: "row < n"
    and ws: "length ws = LINE_SIZE" and a: "map_get (weights m ! t) f = None"
  shows "\<exists>m'. load_line 0 n (render_line freq t f row ws) m = Inr m' \<and> loadable m' n \<and>
      length (weights m') = length (weights m) \<and> nr_class m' = nr_class m \<and>
      nr_templates m' = nr_templates m \<and>
      scores m' = scores m \<and> weight_lines m' = weight_lines m \<and>
      (\<forall>t' < length (weights m). \<forall>f'. stored_rows m' t' f'
           = put_row n (freq, t, f, row, ws) (\<lambda>(t, f). stored_rows m t f) (t', f'))"
proof -
  let ?a = "next_block (mem m)"
  let ?new = "(replicate n None)[row := Some ws]"
  let ?m' = "m\<lparr>mem := (mem m)\<lparr>next_block := Suc ?a,
                    row_arrays := (row_arrays (mem m))(?a \<mapsto> ?new)\<rparr>,
                weights := (weights m)[t := map_set (weights m ! t) f ?a]\<rparr>"
  have 1: "load_line 0 n (render_line freq t f row ws) m = Inr ?m'"
    by (rule load_line_new [OF ws t a row])
  have get: "map_get (weights ?m' ! t') f'
      = (if t' = t \<and> f' = f then Some ?a else map_get (weights m ! t') f')"
    if "t' < length (weights m)" for t' f'
    using that t by (simp add: nth_list_update map_get_map_set)
  have old: "a' < ?a" if "t' < length (weights m)" "map_get (weights m ! t') f' = Some a'" for t' f' a'
    using inv that unfolding loadable_def by blast
  have fresh: "t' = t \<and> f' = f"
    if "t' < length (weights m)" "map_get (weights ?m' ! t') f' = Some ?a" for t' f'
  proof (rule ccontr)
    assume "\<not> (t' = t \<and> f' = f)"
    with get [OF that(1), of f'] that(2) have "map_get (weights m ! t') f' = Some ?a"
      by simp
    from old [OF that(1) this] show False by simp
  qed
  have 2: "loadable ?m' n"
  proof -
    have "a' < next_block (mem ?m') \<and>
        (\<exists>arr. row_arrays (mem ?m') a' = Some arr \<and> length arr = n \<and>
           (\<forall>ws \<in> set arr. \<forall>w. ws = Some w \<longrightarrow> length w = LINE_SIZE))"
      if "t' < length (weights ?m')" "map_get (weights ?m' ! t') f' = Some a'" for t' f' a'
    proof (cases "t' = t \<and> f' = f")
      case True
      with that get [of t' f'] have "a' = ?a" by simp
      with rows_ok_fresh [OF ws, of n row] show ?thesis by simp
    next
      case False
      with that get [of t' f'] have *: "t' < length (weights m)" "map_get (weights m ! t') f' = Some a'"
        by simp_all
      with inv obtain arr' where "a' < next_block (mem m)" "row_arrays (mem m) a' = Some arr'"
        "length arr' = n" "\<forall>ws \<in> set arr'. \<forall>w. ws = Some w \<longrightarrow> length w = LINE_SIZE"
        unfolding loadable_def by blast
      then show ?thesis by simp
    qed
    moreover have "t1 = t2 \<and> f1 = f2"
      if "t1 < length (weights ?m')" "t2 < length (weights ?m')"
        "map_get (weights ?m' ! t1) f1 = Some a'" "map_get (weights ?m' ! t2) f2 = Some a'"
      for t1 t2 f1 f2 a'
    proof -
      from that have lt: "t1 < length (weights m)" "t2 < length (weights m)" by simp_all
      show ?thesis
      proof (cases "a' = ?a")
        case True
        with that(3,4) fresh [OF lt(1), of f1] fresh [OF lt(2), of f2]
        show ?thesis by simp
      next
        case False
        have "map_get (weights m ! t1) f1 = Some a'"
          using that(3) get [OF lt(1), of f1] False by (cases "t1 = t \<and> f1 = f") simp_all
        moreover have "map_get (weights m ! t2) f2 = Some a'"
          using that(4) get [OF lt(2), of f2] False by (cases "t2 = t \<and> f2 = f") simp_all
        ultimately show ?thesis
          using inv lt unfolding loadable_def by blast
      qed
    qed
    ultimately show ?thesis
      unfolding loadable_def by blast
  qed
  have 3: "stored_rows ?m' t' f' = put_row n (freq, t, f, row, ws) (\<lambda>(t, f). stored_rows m t f) (t', f')"
    if t': "t' < length (weights m)" for t' f'
  proof (cases "t' = t \<and> f' = f")
    case True
    with a t show ?thesis by (simp add: stored_rows_def put_row_def map_get_map_set)
  next
    case False
    have g: "map_get (weights ?m' ! t') f' = map_get (weights m ! t') f'"
      by (simp only: get [OF t'] False if_False)
    have "stored_rows ?m' t' f' = stored_rows m t' f'"
    proof (cases "map_get (weights m ! t') f'")
      case None
      with g show ?thesis by (simp add: stored_rows_def)
    next
      case (Some a')
      with old [OF t' Some] g show ?thesis by (simp add: stored_rows_def)
    qed
    with False show ?thesis
      by (auto simp: put_row_def)
  qed
  from 1 2 3 show ?thesis
    by (intro exI [of _ ?m']) simp
qed

lemma load_step:
  assumes inv: "loadable m n" and t: "t < length (weights m)" and row: "row < n"
    and ws: "length ws = LINE_SIZE"
  shows "\<exists>m'. load_line 0 n (render_line freq t f row ws) m = Inr m' \<and> loadable m' n \<and>
      length (weights m') = length (weights m) \<and> nr_class m' = nr_class m \<and>
      nr_templates m' = nr_templates m \<and>
      scores m' = scores m \<and> weight_lines m' = weight_lines m \<and>
      (\<forall>t' < length (weights m). \<forall>f'. stored_rows m' t' f'
           = put_row n (freq, t, f, row, ws) (\<lambda>(t, f). stored_rows m t f) (t', f'))"
proof (cases "map_get (weights m ! t) f")
  case None
  from load_step_new [OF assms None] show ?thesis .
next
  case (Some a)
  from load_step_known [OF assms Some, of freq] show ?thesis by auto
qed

lemma put_row_apply:
  "put_row n r v k =
     (if k = rec_key r
      then Some (set_row r (case v k of None \<Rightarrow> replicate n None | Some arr \<Rightarrow> arr))
      else v k)"
  by (cases r) (auto simp: put_row_def rec_key_def set_row_def)

lemma fold_put_row_cong:
  "v k = v' k \<Longrightarrow> fold (put_row n) recs v k = fold (put_row n) recs v' k"
proof (induction recs arbitrary: v v')
  case Nil
  then show ?case by simp
next
  case (Cons r recs)
  from Cons.prems have "put_row n r v k = put_row n r v' k"
    by (auto simp: put_row_apply [of n r v k] put_row_apply [of n r v' k])
  from Cons.IH [of "put_row n r v" "put_row n r v'", OF this] show ?case by simp
qed

lemma fold_put_row_key:
  "fold (put_row n) recs v k =
     (case filter (\<lambda>r. rec_key r = k) recs of
        [] \<Rightarrow> v k
      | r # rs \<Rightarrow> Some (fold set_row (r # rs) (case v k of None \<Rightarrow> replicate n None | Some arr \<Rightarrow> arr)))"
proof (induction recs arbitrary: v)
  case Nil
  then show ?case by simp
next
  case (Cons r recs)
  have "fold (put_row n) (r # recs) v k = fold (put_row n) recs (put_row n r v) k"
    by simp
  also have "\<dots> = (case filter (\<lambda>r. rec_key r = k) recs of
        [] \<Rightarrow> put_row n r v k
      | r' # rs \<Rightarrow> Some (fold set_row (r' # rs)
          (case put_row n r v k of None \<Rightarrow> replicate n None | Some arr \<Rightarrow> arr)))"
    by (rule Cons.IH)
  also have "\<dots> = (case filter (\<lambda>r. rec_key r = k) (r # recs) of
        [] \<Rightarrow> v k
      | r # rs \<Rightarrow> Some (fold set_row (r # rs) (case v k of None \<Rightarrow> replicate n None | Some arr \<Rightarrow> arr)))"
    by (cases "rec_key r = k") (auto simp: put_row_apply [of n r v k] split: list.splits)
  finally show ?case .
qed

lemma load_records:
  assumes "loadable m n"
    and "\<forall>r \<in> set recs. case r of (freq, t, f, row, ws) \<Rightarrow>
           t < length (weights m) \<and> row < n \<and> length ws = LINE_SIZE"
  shows "\<exists>m'. for_each (map render recs) (load_line 0 n) m = Inr m' \<and> loadable m' n \<and>
      length (weights m') = length (weights m) \<and> nr_class m' = nr_class m \<and>
      nr_templates m' = nr_templates m \<and>
      scores m' = scores m \<and> weight_lines m' = weight_lines m \<and>
      (\<forall>t' < length (weights m). \<forall>f'. stored_rows m' t' f'
           = fold (put_row n) recs (\<lambda>(t, f). stored_rows m t f) (t', f'))"
  using assms
proof (induction recs arbitrary: m)
  case Nil
  then show ?case by simp
next
  case (Cons r recs)
  obtain freq t f row ws where r: "r = (freq, t, f, row, ws)" by (cases r)
  from Cons.prems(2) r have t: "t < length (weights m)" and row: "row < n"
    and ws: "length ws = LINE_SIZE" by simp_all
  from load_step [OF Cons.prems(1) t row ws, of freq f] obtain m1 where
    1: "load_line 0 n (render_line freq t f row ws) m = Inr m1" and inv1: "loadable m1 n"
    and fr: "length (weights m1) = length (weights m)" "nr_class m1 = nr_class m"
      "nr_templates m1 = nr_templates m" "scores m1 = scores m" "weight_lines m1 = weight_lines m"
    and v1: "\<forall>t' < length (weights m). \<forall>f'. stored_rows m1 t' f'
           = put_row n (freq, t, f, row, ws) (\<lambda>(t, f). stored_rows m t f) (t', f')"
    by blast
  from Cons.prems(2) fr(1) have "\<forall>r \<in> set recs. case r of (freq, t, f, row, ws) \<Rightarrow>
           t < length (weights m1) \<and> row < n \<and> length ws = LINE_SIZE"
    by simp
  from Cons.IH [OF inv1 this] obtain m' where
    2: "for_each (map render recs) (load_line 0 n) m1 = Inr m'" and inv': "loadable m' n"
    and fr': "length (weights m') = length (weights m1)" "nr_class m' = nr_class m1"
      "nr_templates m' = nr_templates m1" "scores m' = scores m1" "weight_lines m' = weight_lines m1"
    and v': "\<forall>t' < length (weights m1). \<forall>f'. stored_rows m' t' f'
           = fold (put_row n) recs (\<lambda>(t, f). stored_rows m1 t f) (t', f')"
    by blast
  have "stored_rows m' t' f' = fold (put_row n) (r # recs) (\<lambda>(t, f). stored_rows m t f) (t', f')"
    if t': "t' < length (weights m)" for t' f'
  proof -
    from v' t' fr(1) have "stored_rows m' t' f'
        = fold (put_row n) recs (\<lambda>(t, f). stored_rows m1 t f) (t', f')" by simp
    also have "\<dots> = fold (put_row n) recs (put_row n r (\<lambda>(t, f). stored_rows m t f)) (t', f')"
    proof (rule fold_put_row_cong)
      from v1 t' r show "(case (t', f') of (t, f) \<Rightarrow> stored_rows m1 t f)
          = put_row n r (\<lambda>(t, f). stored_rows m t f) (t', f')"
        by simp
    qed
    finally show ?thesis by simp
  qed
  moreover from r have "render r = render_line freq t f row ws"
    by (simp add: render_def)
  ultimately show ?case
    using 1 2 inv' fr fr' by (intro exI [of _ m']) simp
qed

section \<open>The shape of a trained model\<close>

lemma rows_ok_list_update: "rows_ok arr \<Longrightarrow> length v = LINE_SIZE \<Longrightarrow> rows_ok (arr[i := Some v])"
  unfolding rows_ok_def
  by (auto dest!: set_update_subset_insert [THEN subsetD])

lemma rows_ok_replicate_None [simp]: "rows_ok (replicate n None)"
  by (simp add: rows_ok_def)

lemma rows_ok_nth: "rows_ok arr \<Longrightarrow> i < length arr \<Longrightarrow> arr ! i = Some xs \<Longrightarrow> length xs = LINE_SIZE"
  unfolding rows_ok_def by (metis nth_mem)

lemma heap_ok_update:
  "heap_ok pool n \<Longrightarrow> length arr = n \<Longrightarrow> rows_ok arr \<Longrightarrow>
   heap_ok (pool\<lparr>row_arrays := (row_arrays pool)(a \<mapsto> arr)\<rparr>) n"
  by (simp add: heap_ok_def)

lemma cell_ok_mono:
  assumes "cell_ok pool n wc tc" and "\<And>a. row_arrays pool a \<noteq> None \<Longrightarrow> row_arrays pool' a \<noteq> None"
  shows "cell_ok pool' n wc tc"
  using assms unfolding cell_ok_def by blast

lemma table_ok_mono:
  assumes "table_ok pool n wcs tcs" and "\<And>a. row_arrays pool a \<noteq> None \<Longrightarrow> row_arrays pool' a \<noteq> None"
  shows "table_ok pool' n wcs tcs"
proof -
  from assms(1) have all: "list_all2 (cell_ok pool n) wcs tcs" and d: "distinct (map fst tcs)"
    by (simp_all add: table_ok_def)
  from all have "list_all2 (cell_ok pool' n) wcs tcs"
  proof (rule list_all2_mono)
    fix wc tc assume "cell_ok pool n wc tc"
    then show "cell_ok pool' n wc tc" by (rule cell_ok_mono) (rule assms(2))
  qed
  with d show ?thesis by (simp add: table_ok_def)
qed

lemma map_set_absent: "k \<notin> fst ` set cells \<Longrightarrow> map_set cells k v = cells @ [(k, Some v)]"
  by (induction cells) auto

lemma map_get_None_absent:
  "map_get cells k = None \<Longrightarrow> \<forall>c \<in> set cells. snd c \<noteq> None \<Longrightarrow> k \<notin> fst ` set cells"
  by (induction cells) (auto simp: map_get_def split: if_splits)

lemma cells_ok_keys: "list_all2 (cell_ok pool n) wcs tcs \<Longrightarrow> map fst wcs = map fst tcs"
  by (induction wcs tcs rule: list_all2_induct) (simp_all add: cell_ok_def)

lemma cells_ok_values: "list_all2 (cell_ok pool n) wcs tcs \<Longrightarrow> \<forall>c \<in> set tcs. snd c \<noteq> None"
  by (induction wcs tcs rule: list_all2_induct) (auto simp: cell_ok_def)

lemma cells_ok_nonzero: "list_all2 (cell_ok pool n) wcs tcs \<Longrightarrow> \<forall>c \<in> set tcs. fst c \<noteq> 0"
  by (induction wcs tcs rule: list_all2_induct) (auto simp: cell_ok_def)

lemma table_ok_new:
  assumes ok: "table_ok pool n wcs tcs" and none: "map_get tcs f = None"
    and cell: "cell_ok pool n (f, Some a) (f, Some feat)"
  shows "table_ok pool n (map_set wcs f a) (map_set tcs f feat)"
proof -
  from ok have all: "list_all2 (cell_ok pool n) wcs tcs" and d: "distinct (map fst tcs)"
    by (simp_all add: table_ok_def)
  from map_get_None_absent [OF none cells_ok_values [OF all]] have t: "f \<notin> fst ` set tcs" .
  with cells_ok_keys [OF all] have w: "f \<notin> fst ` set wcs"
    by (metis set_map)
  from all cell have "list_all2 (cell_ok pool n) (wcs @ [(f, Some a)]) (tcs @ [(f, Some feat)])"
    by (intro list_all2_appendI) simp_all
  moreover from d t have "distinct (map fst (tcs @ [(f, Some feat)]))"
    by simp
  ultimately show ?thesis
    by (simp only: map_set_absent [OF t] map_set_absent [OF w] table_ok_def)
qed

lemma cells_ok_old:
  assumes "list_all2 (cell_ok pool n) wcs tcs" and "map_get tcs f = Some ft"
    and w: "feat_weights feat = feat_weights ft"
    and meta: "length (feat_meta feat) = n" "rows_ok (feat_meta feat)"
  shows "list_all2 (cell_ok pool n) wcs (map_set tcs f feat) \<and>
        map fst (map_set tcs f feat) = map fst tcs"
  using assms(1,2)
proof (induction wcs tcs rule: list_all2_induct)
  case Nil
  then show ?case by (simp add: map_get_def)
next
  case (Cons wc wcs tc tcs)
  show ?case
  proof (cases "fst tc = f")
    case True
    with Cons.prems have "snd tc = Some ft"
      by (cases tc) (simp add: map_get_def)
    with Cons.hyps(1) True w meta have "cell_ok pool n wc (f, Some feat)"
      by (auto simp: cell_ok_def)
    with Cons.hyps(2) True show ?thesis by simp
  next
    case False
    with Cons.prems have "map_get tcs f = Some ft"
      by (cases tc) (simp add: map_get_def)
    from Cons.IH [OF this] Cons.hyps(1) False show ?thesis by simp
  qed
qed

lemma table_ok_old:
  assumes ok: "table_ok pool n wcs tcs" and some: "map_get tcs f = Some ft"
    and w: "feat_weights feat = feat_weights ft"
    and meta: "length (feat_meta feat) = n" "rows_ok (feat_meta feat)"
  shows "table_ok pool n wcs (map_set tcs f feat)"
  using ok cells_ok_old [OF _ some w meta, of pool wcs]
  by (simp add: table_ok_def)

lemma for_each_preserves:
  assumes "for_each xs body s = Inr s'" and "P s"
    and "\<And>x s s'. x \<in> set xs \<Longrightarrow> P s \<Longrightarrow> body x s = Inr s' \<Longrightarrow> P s'"
  shows "P s'"
  using assms
proof (induction xs arbitrary: s)
  case Nil
  then show ?case by simp
next
  case (Cons x xs)
  from Cons.prems(1) obtain s1 where 1: "body x s = Inr s1" and 2: "for_each xs body s1 = Inr s'"
    by (auto split: sum.splits)
  from Cons.prems(3) [OF _ Cons.prems(2) 1] have "P s1" by simp
  show ?case
  proof (rule Cons.IH [OF 2 \<open>P s1\<close>])
    fix y t t' assume "y \<in> set xs" "P t" "body y t = Inr t'"
    then show "P t'" using Cons.prems(3) [of y t t'] by simp
  qed
qed

lemma table_ok_lookup:
  assumes "table_ok pool n wcs tcs" and "map_get tcs f = Some ft"
  shows "row_arrays pool (feat_weights ft) \<noteq> None \<and> length (feat_meta ft) = n \<and>
         rows_ok (feat_meta ft) \<and> map_get wcs f = Some (feat_weights ft) \<and> f \<noteq> 0"
proof -
  from assms(1) have "list_all2 (cell_ok pool n) wcs tcs" by (simp add: table_ok_def)
  then show ?thesis using assms(2)
  proof (induction wcs tcs rule: list_all2_induct)
    case Nil
    then show ?case by (simp add: map_get_def)
  next
    case (Cons wc wcs tc tcs)
    show ?case
    proof (cases "fst tc = f")
      case True
      with Cons.prems have "snd tc = Some ft"
        by (cases tc) (simp add: map_get_def)
      with Cons.hyps(1) True show ?thesis
        by (cases wc) (auto simp: cell_ok_def map_get_def)
    next
      case False
      with Cons.prems have "map_get tcs f = Some ft"
        by (cases tc) (simp add: map_get_def)
      from Cons.IH [OF this] Cons.hyps(1) False show ?thesis
        by (cases wc) (auto simp: cell_ok_def map_get_def)
    qed
  qed
qed

lemma model_ok_lookup:
  assumes "model_ok m" and "t < length (train_weights m)" and "map_get (train_weights m ! t) f = Some ft"
  shows "row_arrays (mem m) (feat_weights ft) \<noteq> None \<and>
         length (feat_meta ft) = get_nr_rows (nr_class m) \<and> rows_ok (feat_meta ft) \<and>
         map_get (weights m ! t) f = Some (feat_weights ft) \<and> f \<noteq> 0"
proof -
  from assms(1,2) have "table_ok (mem m) (get_nr_rows (nr_class m)) (weights m ! t) (train_weights m ! t)"
    by (simp add: model_ok_def list_all2_conv_all_nth)
  from table_ok_lookup [OF this assms(3)] show ?thesis .
qed

lemma tables_ok_update:
  assumes "list_all2 (table_ok pool n) ws ts"
    and "\<And>a. row_arrays pool a \<noteq> None \<Longrightarrow> row_arrays pool' a \<noteq> None"
    and "t < length ts" and "table_ok pool' n w' t'"
  shows "list_all2 (table_ok pool' n) (ws[t := w']) (ts[t := t'])"
proof -
  from assms(1) have "list_all2 (table_ok pool' n) ws ts"
  proof (rule list_all2_mono)
    fix w t assume "table_ok pool n w t"
    then show "table_ok pool' n w t" by (rule table_ok_mono) (rule assms(2))
  qed
  with assms(4) show ?thesis
    by (rule list_all2_update_cong [rotated])
qed

lemma new_feat_model_ok:
  assumes ok: "model_ok m" and nf: "new_feat m t f = Inr (feat0, m0)" and f: "f \<noteq> 0"
    and none: "map_get (train_weights m ! t) f = None"
  shows "model_ok m0 \<and> map_get (train_weights m0 ! t) f = Some feat0 \<and>
         nr_class m0 = nr_class m \<and> nr_templates m0 = nr_templates m \<and>
         model_time m0 = model_time m \<and> t < length (train_weights m0)"
proof -
  let ?n = "get_nr_rows (nr_class m)"
  let ?a = "next_block (mem m)"
  let ?pool = "(mem m)\<lparr>next_block := Suc ?a, row_arrays := (row_arrays (mem m))(?a \<mapsto> replicate ?n None)\<rparr>"
  note nf' = new_feat_Inr [OF nf]
  from nf' have feat0: "feat0 = \<lparr>feat_weights = ?a, feat_meta = replicate ?n None\<rparr>" by simp
  from nf' have m0: "m0 = m\<lparr>mem := ?pool,
             weights := (weights m)[t := map_set (weights m ! t) f ?a],
             train_weights := (train_weights m)[t := map_set (train_weights m ! t) f feat0]\<rparr>"
    by simp
  from ok have tabs: "list_all2 (table_ok (mem m) ?n) (weights m) (train_weights m)"
    and heap: "heap_ok (mem m) ?n"
    by (simp_all add: model_ok_def)
  from nf' have t: "t < length (weights m)" "t < length (train_weights m)" by simp_all
  from tabs t have tab: "table_ok (mem m) ?n (weights m ! t) (train_weights m ! t)"
    by (simp add: list_all2_conv_all_nth)
  have mono: "row_arrays ?pool a \<noteq> None" if "row_arrays (mem m) a \<noteq> None" for a
    using that by simp
  have "cell_ok ?pool ?n (f, Some ?a) (f, Some feat0)"
    using f by (simp add: cell_ok_def feat0)
  with table_ok_mono [OF tab mono] none
  have "table_ok ?pool ?n (map_set (weights m ! t) f ?a) (map_set (train_weights m ! t) f feat0)"
    by (intro table_ok_new) simp_all
  from tables_ok_update [OF tabs mono t(2) this]
  have tabs0: "list_all2 (table_ok ?pool ?n) (weights m0) (train_weights m0)"
    by (simp add: m0)
  have heap0: "heap_ok ?pool ?n"
    using heap by (simp add: heap_ok_def)
  from ok tabs0 heap0 have "model_ok m0"
    by (simp add: model_ok_def m0)
  moreover from t have "map_get (train_weights m0 ! t) f = Some feat0"
    by (simp add: m0 map_get_map_set)
  ultimately show ?thesis using t by (simp add: m0)
qed

lemma heap_ok_lookup:
  "heap_ok pool n \<Longrightarrow> row_arrays pool a = Some arr \<Longrightarrow> length arr = n \<and> rows_ok arr"
  by (simp add: heap_ok_def)

lemma touch_known_model_ok:
  assumes ok: "model_ok m0" and t: "t < length (train_weights m0)"
    and get: "map_get (train_weights m0 ! t) f = Some feat0"
    and 1: "ensure_row (mem m0) feat0 (get_row clas) = Inr (feat1, pool1)"
    and 2: "update_accumulator pool1 feat1 clas tm = Inr feat2"
    and 3: "update_count feat2 clas 1 = Inr feat3"
    and 4: "update_weight pool1 feat3 clas upd = Inr pool2"
    and m': "m' = m0\<lparr>mem := pool2,
               train_weights := (train_weights m0)[t := map_set (train_weights m0 ! t) f feat3]\<rparr>"
  shows "model_ok m'"
proof -
  let ?n = "get_nr_rows (nr_class m0)"
  let ?row = "get_row clas"
  let ?col = "get_col clas"
  let ?a = "feat_weights feat0"
  from ok have tabs: "list_all2 (table_ok (mem m0) ?n) (weights m0) (train_weights m0)"
    and heap: "heap_ok (mem m0) ?n"
    by (simp_all add: model_ok_def)
  from tabs t have tab: "table_ok (mem m0) ?n (weights m0 ! t) (train_weights m0 ! t)"
    by (simp add: list_all2_conv_all_nth)
  from model_ok_lookup [OF ok t get] have meta0: "length (feat_meta feat0) = ?n" "rows_ok (feat_meta feat0)"
    by simp_all
  \<comment> \<open>the arena after \<open>ensure_row\<close>\<close>
  from ensure_row_Inr [OF 1] obtain arr where
    arr: "row_arrays (mem m0) ?a = Some arr" "?row < length arr"
    and w1: "feat_weights feat1 = ?a"
    and h1: "row_arrays pool1 = (row_arrays (mem m0))(?a \<mapsto>
         arr[?row := Some (case arr ! ?row of None \<Rightarrow> replicate LINE_SIZE 0 | Some ws \<Rightarrow> ws)])"
    and e1: "case arr ! ?row of
         Some ws \<Rightarrow> feat_meta feat1 = feat_meta feat0
       | None \<Rightarrow> ?row < length (feat_meta feat0) \<and>
           feat_meta feat1 = (feat_meta feat0)[?row := Some (replicate LINE_SIZE zero_meta)]"
    by blast
  from heap_ok_lookup [OF heap arr(1)] have arr_ok: "length arr = ?n" "rows_ok arr" by simp_all
  let ?r = "case arr ! ?row of None \<Rightarrow> replicate LINE_SIZE 0 | Some ws \<Rightarrow> ws"
  have r: "length ?r = LINE_SIZE"
    using rows_ok_nth [OF arr_ok(2) arr(2)] by (cases "arr ! ?row") simp_all
  let ?arr1 = "arr[?row := Some ?r]"
  have arr1_ok: "length ?arr1 = ?n" "rows_ok ?arr1"
    using arr_ok r by (simp_all add: rows_ok_list_update)
  \<comment> \<open>the meta data\<close>
  have meta1: "length (feat_meta feat1) = ?n" "rows_ok (feat_meta feat1)"
    using e1 meta0 by (cases "arr ! ?row"; simp add: rows_ok_list_update)+
  from 2 obtain ms where ms: "feat_meta feat1 ! ?row = Some ms" "?row < length (feat_meta feat1)"
    and f2: "\<exists>md. feat2 = feat1\<lparr>feat_meta := (feat_meta feat1)[?row := Some (ms[?col := md])]\<rparr>"
    by (auto simp: update_accumulator_eq_Inr)
  from rows_ok_nth [OF meta1(2) ms(2) ms(1)] have lms: "length ms = LINE_SIZE" .
  from f2 lms meta1 have meta2: "length (feat_meta feat2) = ?n" "rows_ok (feat_meta feat2)"
    and w2: "feat_weights feat2 = feat_weights feat1"
    by (auto simp: rows_ok_list_update)
  from 3 obtain ms2 where ms2: "feat_meta feat2 ! ?row = Some ms2" "?row < length (feat_meta feat2)"
    and f3: "\<exists>md. feat3 = feat2\<lparr>feat_meta := (feat_meta feat2)[?row := Some (ms2[?col := md])]\<rparr>"
    by (auto simp: update_count_eq_Inr)
  from rows_ok_nth [OF meta2(2) ms2(2) ms2(1)] have lms2: "length ms2 = LINE_SIZE" .
  from f3 lms2 meta2 have meta3: "length (feat_meta feat3) = ?n" "rows_ok (feat_meta feat3)"
    and w3: "feat_weights feat3 = feat_weights feat2"
    by (auto simp: rows_ok_list_update)
  \<comment> \<open>the arena after \<open>update_weight\<close>\<close>
  from 4 w3 w2 w1 h1 obtain v where
    h2: "row_arrays pool2 = (row_arrays (mem m0))(?a \<mapsto> ?arr1[?row := Some (?r[?col := v])])"
    by (auto simp: update_weight_eq_Inr arr(2))
  have "heap_ok pool2 ?n"
    unfolding heap_ok_def
  proof (intro allI impI)
    fix a' arr' assume "row_arrays pool2 a' = Some arr'"
    with h2 have "(a' = ?a \<and> arr' = ?arr1[?row := Some (?r[?col := v])]) \<or> row_arrays (mem m0) a' = Some arr'"
      by (auto split: if_splits)
    moreover have "rows_ok (?arr1[?row := Some (?r[?col := v])])"
      by (rule rows_ok_list_update [OF arr1_ok(2)]) (simp add: r)
    moreover have "length (?arr1[?row := Some (?r[?col := v])]) = ?n"
      using arr1_ok(1) by simp
    ultimately show "length arr' = ?n \<and> rows_ok arr'"
      using heap_ok_lookup [OF heap, of a' arr'] by blast
  qed
  moreover have mono: "row_arrays pool2 a' \<noteq> None" if "row_arrays (mem m0) a' \<noteq> None" for a'
    using that h2 by simp
  have "table_ok pool2 ?n (weights m0 ! t) (map_set (train_weights m0 ! t) f feat3)"
    using table_ok_mono [OF tab mono] get w3 w2 w1 meta3
    by (intro table_ok_old [where ft = feat0]) simp_all
  from tables_ok_update [OF tabs mono t this]
  have "list_all2 (table_ok pool2 ?n) (weights m0) ((train_weights m0)[t := map_set (train_weights m0 ! t) f feat3])"
    by simp
  ultimately show ?thesis
    using ok by (simp add: model_ok_def m')
qed

lemma touch_feature_model_ok:
  assumes ok: "model_ok m" and tf: "touch_feature m clas t f upd = Inr m'" and f: "f \<noteq> 0"
  shows "model_ok m' \<and> nr_class m' = nr_class m \<and> nr_templates m' = nr_templates m \<and>
         model_time m' = model_time m"
proof -
  from tf obtain feat0 m0 feat1 pool1 feat2 feat3 pool2 where
    t: "t < length (train_weights m)"
    and 0: "case map_get (train_weights m ! t) f of
       None \<Rightarrow> new_feat m t f = Inr (feat0, m0)
     | Some ft \<Rightarrow> feat0 = ft \<and> m0 = m"
    and 1: "ensure_row (mem m0) feat0 (get_row clas) = Inr (feat1, pool1)"
    and 2: "update_accumulator pool1 feat1 clas (model_time m0) = Inr feat2"
    and 3: "update_count feat2 clas 1 = Inr feat3"
    and 4: "update_weight pool1 feat3 clas upd = Inr pool2"
    and t0: "t < length (train_weights m0)"
    and m': "m' = m0\<lparr>mem := pool2, train_weights := (train_weights m0)[t := map_set (train_weights m0 ! t) f feat3]\<rparr>"
    by (rule touch_feature_Inr)
  have A: "model_ok m0 \<and> map_get (train_weights m0 ! t) f = Some feat0 \<and>
         nr_class m0 = nr_class m \<and> nr_templates m0 = nr_templates m \<and> model_time m0 = model_time m"
  proof (cases "map_get (train_weights m ! t) f")
    case None
    with 0 have "new_feat m t f = Inr (feat0, m0)" by simp
    from new_feat_model_ok [OF ok this f None] show ?thesis by simp
  next
    case (Some ft)
    with 0 ok show ?thesis by simp
  qed
  then have "model_ok m'"
    using touch_known_model_ok [OF _ t0 _ 1 2 3 4 m'] by simp
  with A m' show ?thesis by simp
qed

lemma model_ok_time [simp]: "model_ok (m\<lparr>model_time := tm\<rparr>) = model_ok m"
  by (simp add: model_ok_def)

lemma update_feature_model_ok:
  assumes "model_ok m" and "update_feature clas entry m = Inr m'"
  shows "model_ok m' \<and> nr_class m' = nr_class m \<and> nr_templates m' = nr_templates m"
proof -
  obtain t f upd where e: "entry = ((t, f), upd)" by (metis surj_pair)
  show ?thesis
  proof (cases "upd = 0")
    case True
    with assms e show ?thesis by (simp add: update_feature_def)
  next
    case False
    with assms(2) e have f: "f \<noteq> 0" and "touch_feature m clas t f upd = Inr m'"
      by (auto simp: update_feature_def split: if_splits sum.splits)
    from touch_feature_model_ok [OF assms(1) this(2) f] show ?thesis by simp
  qed
qed

lemma update_model_ok:
  assumes "model_ok m" and "update m upds = Inr m'"
  shows "model_ok m' \<and> nr_class m' = nr_class m \<and> nr_templates m' = nr_templates m"
proof -
  let ?P = "\<lambda>s. model_ok s \<and> nr_class s = nr_class m \<and> nr_templates s = nr_templates m"
  from assms(2) have run: "for_each upds (\<lambda>(clas, features) m. for_each features (update_feature clas) m)
       (m\<lparr>model_time := model_time m + 1\<rparr>) = Inr m'"
    by (simp add: update_def)
  have "?P m'"
  proof (rule for_each_preserves [OF run, where P = ?P])
    show "?P (m\<lparr>model_time := model_time m + 1\<rparr>)" using assms(1) by simp
  next
    fix x s s'
    assume P: "?P s" and step: "(case x of (clas, features) \<Rightarrow> \<lambda>m. for_each features (update_feature clas) m) s = Inr s'"
    obtain clas features where x: "x = (clas, features)" by (cases x)
    from step x have inner: "for_each features (update_feature clas) s = Inr s'" by simp
    show "?P s'"
    proof (rule for_each_preserves [OF inner, where P = ?P])
      show "?P s" by (rule P)
    next
      fix e u u' assume "?P u" "update_feature clas e u = Inr u'"
      with update_feature_model_ok [of u clas e u'] show "?P u'" by simp
    qed
  qed
  then show ?thesis .
qed

lemma init_model_ok: "model_ok (LinearModel_init nc nt)"
  by (simp add: model_ok_def LinearModel_init_def list_all2_conv_all_nth table_ok_def heap_ok_def
      Pool_init_def)

lemma average_cell_averaging:
  assumes "averaging pool0 n a s" and "average_cell row tm col s = Inr s'"
  shows "averaging pool0 n a s'"
proof -
  obtain pool feat where s: "s = (pool, feat)" by (cases s)
  from assms(2) s obtain md w feat' pool' where
    wm: "write_meta feat row col md = Inr feat'"
    and ww: "write_weight pool (feat_weights feat) row col w = Inr pool'"
    and s': "s' = (pool', feat')"
    by (auto simp: average_cell_def Let_def err_bind_eq_Inr)
  from assms(1) s have heap: "heap_ok pool n" and a: "feat_weights feat = a"
    and meta: "length (feat_meta feat) = n" "rows_ok (feat_meta feat)"
    and mono: "\<forall>a'. row_arrays pool0 a' \<noteq> None \<longrightarrow> row_arrays pool a' \<noteq> None"
    by (simp_all add: averaging_def)
  from wm obtain ms where ms: "row < length (feat_meta feat)" "feat_meta feat ! row = Some ms"
    and f': "feat' = feat\<lparr>feat_meta := (feat_meta feat)[row := Some (ms[col := md])]\<rparr>"
    by (auto simp: write_meta_eq_Inr)
  from rows_ok_nth [OF meta(2) ms] have "length (ms[col := md]) = LINE_SIZE" by simp
  from rows_ok_list_update [OF meta(2) this] meta(1) f' a
  have 1: "feat_weights feat' = a" "length (feat_meta feat') = n" "rows_ok (feat_meta feat')"
    by simp_all
  from ww obtain arr ws where arr: "row_arrays pool (feat_weights feat) = Some arr" "row < length arr"
    "arr ! row = Some ws"
    and p': "pool' = pool\<lparr>row_arrays := (row_arrays pool)(feat_weights feat \<mapsto> arr[row := Some (ws[col := w])])\<rparr>"
    by (auto simp: write_weight_eq_Inr)
  from heap_ok_lookup [OF heap arr(1)] have arr_ok: "length arr = n" "rows_ok arr" by simp_all
  from rows_ok_nth [OF arr_ok(2) arr(2,3)] have "length (ws[col := w]) = LINE_SIZE" by simp
  from rows_ok_list_update [OF arr_ok(2) this] arr_ok(1) heap
  have 2: "heap_ok pool' n"
    unfolding p' by (intro heap_ok_update) simp_all
  from mono p' have 3: "\<forall>a'. row_arrays pool0 a' \<noteq> None \<longrightarrow> row_arrays pool' a' \<noteq> None"
    by simp
  from 1 2 3 s' show ?thesis by (simp add: averaging_def)
qed

lemma average_weight_averaging:
  assumes "averaging pool0 n (feat_weights feat) (pool, feat)"
    and "average_weight pool feat nc tm = Inr s'"
  shows "averaging pool0 n (feat_weights feat) s'"
proof (rule for_each_preserves [OF assms(2) [unfolded average_weight_def],
      where P = "averaging pool0 n (feat_weights feat)"])
  show "averaging pool0 n (feat_weights feat) (pool, feat)" by (rule assms(1))
next
  fix row s u
  assume P: "averaging pool0 n (feat_weights feat) s"
    and step: "err_bind (read_row (fst s) (feat_weights (snd s)) row)
        (\<lambda>p. case p of None \<Rightarrow> Inr s | Some x \<Rightarrow> for_each [0..<LINE_SIZE] (average_cell row tm) s) = Inr u"
  from step [unfolded err_bind_eq_Inr] obtain p where
    "read_row (fst s) (feat_weights (snd s)) row = Inr p" and
    c: "(case p of None \<Rightarrow> Inr s | Some x \<Rightarrow> for_each [0..<LINE_SIZE] (average_cell row tm) s) = Inr u"
    by (elim exE conjE)
  show "averaging pool0 n (feat_weights feat) u"
  proof (cases p)
    case None
    with c P show ?thesis by simp
  next
    case (Some ws)
    with c have run: "for_each [0..<LINE_SIZE] (average_cell row tm) s = Inr u" by simp
    show ?thesis
    proof (rule for_each_preserves [OF run, where P = "averaging pool0 n (feat_weights feat)"])
      show "averaging pool0 n (feat_weights feat) s" by (rule P)
    next
      fix col v v' assume "averaging pool0 n (feat_weights feat) v" "average_cell row tm col v = Inr v'"
      then show "averaging pool0 n (feat_weights feat) v'" by (rule average_cell_averaging)
    qed
  qed
qed

lemma average_entry_model_ok:
  assumes ok: "model_ok m" and run: "average_entry t i m = Inr m'"
  shows "model_ok m' \<and> nr_class m' = nr_class m \<and> nr_templates m' = nr_templates m \<and>
         model_time m' = model_time m"
proof -
  let ?n = "get_nr_rows (nr_class m)"
  let ?cells = "train_weights m ! t"
  from run have t: "t < length (train_weights m)"
    by (auto simp: average_entry_def index_def split: if_splits)
  with run have i: "i < length ?cells"
    by (auto simp: average_entry_def index_def split: if_splits)
  from ok have tabs: "list_all2 (table_ok (mem m) ?n) (weights m) (train_weights m)"
    and heap: "heap_ok (mem m) ?n"
    by (simp_all add: model_ok_def)
  from tabs t have tab: "table_ok (mem m) ?n (weights m ! t) ?cells"
    by (simp add: list_all2_conv_all_nth)
  then have cells: "list_all2 (cell_ok (mem m) ?n) (weights m ! t) ?cells"
    and d: "distinct (map fst ?cells)"
    by (simp_all add: table_ok_def)
  from cells i have c: "cell_ok (mem m) ?n (weights m ! t ! i) (?cells ! i)"
    by (simp add: list_all2_conv_all_nth)
  then obtain feat where feat: "snd (?cells ! i) = Some feat" and key: "fst (?cells ! i) \<noteq> 0"
    and wc: "fst (weights m ! t ! i) = fst (?cells ! i)" "snd (weights m ! t ! i) = Some (feat_weights feat)"
    and a: "row_arrays (mem m) (feat_weights feat) \<noteq> None"
    and meta: "length (feat_meta feat) = ?n" "rows_ok (feat_meta feat)"
    by (auto simp: cell_ok_def)
  from run t i feat key obtain pool feat' where
    avg: "average_weight (mem m) feat (nr_class m) (model_time m) = Inr (pool, feat')"
    and m': "m' = m\<lparr>mem := pool,
        train_weights := (train_weights m)[t := ?cells[i := (fst (?cells ! i), Some feat')]]\<rparr>"
    by (auto simp: average_entry_def err_bind_eq_Inr)
  from heap meta have "averaging (mem m) ?n (feat_weights feat) (mem m, feat)"
    by (simp add: averaging_def)
  from average_weight_averaging [OF this avg]
  have heap': "heap_ok pool ?n"
    and mono: "\<And>a'. row_arrays (mem m) a' \<noteq> None \<Longrightarrow> row_arrays pool a' \<noteq> None"
    and w': "feat_weights feat' = feat_weights feat"
    and meta': "length (feat_meta feat') = ?n" "rows_ok (feat_meta feat')"
    by (simp_all add: averaging_def)
  from table_ok_mono [OF tab mono] have cells': "list_all2 (cell_ok pool ?n) (weights m ! t) ?cells"
    by (simp add: table_ok_def)
  from wc key w' meta' mono [OF a]
  have "cell_ok pool ?n (weights m ! t ! i) (fst (?cells ! i), Some feat')"
    by (simp add: cell_ok_def)
  with cells' have "list_all2 (cell_ok pool ?n) ((weights m ! t)[i := weights m ! t ! i])
       (?cells[i := (fst (?cells ! i), Some feat')])"
    by (rule list_all2_update_cong)
  then have 1: "list_all2 (cell_ok pool ?n) (weights m ! t) (?cells[i := (fst (?cells ! i), Some feat')])"
    by simp
  have "map fst (?cells[i := (fst (?cells ! i), Some feat')]) = map fst ?cells"
    using i by (simp add: map_update list_update_same_conv)
  with d 1 have "table_ok pool ?n (weights m ! t) (?cells[i := (fst (?cells ! i), Some feat')])"
    by (simp add: table_ok_def)
  from tables_ok_update [OF tabs mono t this]
  have "list_all2 (table_ok pool ?n) (weights m)
     ((train_weights m)[t := ?cells[i := (fst (?cells ! i), Some feat')]])"
    by simp
  with heap' ok show ?thesis
    by (simp add: model_ok_def m')
qed

lemma end_training_model_ok:
  assumes "model_ok m" and "end_training m = Inr m'"
  shows "model_ok m' \<and> nr_class m' = nr_class m \<and> nr_templates m' = nr_templates m"
proof -
  let ?P = "\<lambda>s. model_ok s \<and> nr_class s = nr_class m \<and> nr_templates s = nr_templates m"
  show ?thesis
  proof (rule for_each_preserves [OF assms(2) [unfolded end_training_def], where P = ?P])
    show "?P m" using assms(1) by simp
  next
    fix t s s'
    assume P: "?P s" and step: "err_bind (index (train_weights s) t)
         (\<lambda>cells. for_each [0..<length cells] (average_entry t) s) = Inr s'"
    from step [unfolded err_bind_eq_Inr] obtain cells where
      "index (train_weights s) t = Inr cells"
      and inner: "for_each [0..<length cells] (average_entry t) s = Inr s'"
      by blast
    show "?P s'"
    proof (rule for_each_preserves [OF inner, where P = ?P])
      show "?P s" by (rule P)
    next
      fix i u u' assume "?P u" "average_entry t i u = Inr u'"
      with average_entry_model_ok [of u t i u'] show "?P u'" by simp
    qed
  qed
qed

lemma gather_row_length:
  "gather_row pool a row s = Inr s' \<Longrightarrow> length (fst s') = length (fst s)"
  by (cases s) (auto simp: gather_row_def err_bind_eq_Inr store_def split: option.splits if_splits)

lemma gather_feature_length:
  assumes "gather_feature m feats t s = Inr s'"
  shows "length (fst s') = length (fst s)"
proof (cases "t < length feats \<and> feats ! t \<noteq> 0")
  case False
  with assms show ?thesis
    by (auto simp: gather_feature_def index_def split: if_splits)
next
  case True
  with assms obtain feature where
    run: "(case feature of None \<Rightarrow> Inr s
          | Some a \<Rightarrow> for_each [0..<get_nr_rows (nr_class m)] (gather_row (mem m) a) s) = Inr s'"
    by (auto simp: gather_feature_def err_bind_eq_Inr)
  show ?thesis
  proof (cases feature)
    case None
    with run show ?thesis by simp
  next
    case (Some a)
    with run have loop: "for_each [0..<get_nr_rows (nr_class m)] (gather_row (mem m) a) s = Inr s'"
      by simp
    show ?thesis
    proof (rule for_each_preserves [OF loop, where P = "\<lambda>u. length (fst u) = length (fst s)"])
      fix row u u' assume "length (fst u) = length (fst s)" "gather_row (mem m) a row u = Inr u'"
      then show "length (fst u') = length (fst s)" by (simp add: gather_row_length)
    qed simp
  qed
qed

lemma gather_weights_length:
  assumes "gather_weights m wl feats n = Inr (wl', k)"
  shows "length wl' = length wl"
proof -
  have "length (fst (wl', k)) = length wl"
  proof (rule for_each_preserves [OF assms [unfolded gather_weights_def],
        where P = "\<lambda>u. length (fst u) = length wl"])
    fix t u u' assume "length (fst u) = length wl" "gather_feature m feats t u = Inr u'"
    then show "length (fst u') = length wl" by (simp add: gather_feature_length)
  qed simp
  then show ?thesis by simp
qed

lemma add_score_length: "add_score st wl col buf = Inr buf' \<Longrightarrow> length buf' = length buf"
  by (auto simp: add_score_def err_bind_eq_Inr store_def split: if_splits)

lemma add_scores_length:
  assumes "for_each cols (add_score st wl) buf = Inr buf'"
  shows "length buf' = length buf"
proof (rule for_each_preserves [OF assms, where P = "\<lambda>u. length u = length buf"])
  fix col u u' assume "length u = length buf" "add_score st wl col u = Inr u'"
  then show "length u' = length buf" by (simp add: add_score_length)
qed simp

lemma set_scores_row_length:
  "set_scores_row wls nc row buf = Inr buf' \<Longrightarrow> length buf' = length buf"
  unfolding set_scores_row_def err_bind_eq_Inr Let_def
  by (elim exE conjE) (simp only: add_scores_length sum.distinct split: if_splits)

lemma set_scores_length:
  assumes "set_scores buf wls k nc = Inr buf'"
  shows "length buf' = length buf"
proof -
  from assms have le: "nc \<le> length buf"
    and loop: "for_each [0..<k] (set_scores_row wls nc) (replicate nc 0 @ drop nc buf) = Inr buf'"
    by (auto simp: set_scores_def split: if_splits)
  show ?thesis
  proof (rule for_each_preserves [OF loop, where P = "\<lambda>u. length u = length buf"])
    show "length (replicate nc 0 @ drop nc buf) = length buf" using le by simp
  next
    fix row u u' assume "length u = length buf" "set_scores_row wls nc row u = Inr u'"
    then show "length u' = length buf" by (simp add: set_scores_row_length)
  qed
qed

lemma call_model_ok:
  assumes "model_ok m" and "LinearModel_call m feats = Inr (s, m')"
  shows "model_ok m' \<and> nr_class m' = nr_class m \<and> nr_templates m' = nr_templates m"
proof -
  from assms(2) obtain buf m1 where 1: "score m (scores m) feats (length feats) = Inr (buf, m1)"
    and 2: "m' = m1\<lparr>scores := buf\<rparr>"
    by (auto simp: LinearModel_call_def Let_def err_bind_eq_Inr)
  from 1 obtain wl k where g: "gather_weights m (weight_lines m) feats (length feats) = Inr (wl, k)"
    and sc: "set_scores (scores m) wl k (nr_class m) = Inr buf"
    and m1: "m1 = m\<lparr>weight_lines := wl\<rparr>"
    by (auto simp: score_def err_bind_eq_Inr)
  from gather_weights_length [OF g] set_scores_length [OF sc] assms(1) show ?thesis
    by (simp add: model_ok_def 2 m1)
qed

lemma trained_model_ok: "trained m \<Longrightarrow> model_ok m"
proof (induction rule: trained.induct)
  case (init n_class n_templates)
  show ?case by (rule init_model_ok)
next
  case (update m upds m')
  with update_model_ok [of m upds m'] show ?case by simp
next
  case (call m feats s m')
  with call_model_ok [of m feats s m'] show ?case by simp
next
  case (end_training m m')
  with end_training_model_ok [of m m'] show ?case by simp
qed

section \<open>What dump writes and what load reads back\<close>

lemma for_each_accum:
  fixes a :: nat
  assumes "\<And>i acc. i < k \<Longrightarrow> body i acc = Inr (acc + g (xs ! i))" and "k \<le> length xs"
  shows "for_each [0..<k] body a = Inr (a + sum_list (map g (take k xs)))"
  using assms
proof (induction k)
  case 0
  then show ?case by simp
next
  case (Suc k)
  from Suc.prems have "for_each [0..<k] body a = Inr (a + sum_list (map g (take k xs)))"
    by (intro Suc.IH) simp_all
  with Suc.prems show ?case
    by (simp add: for_each_snoc take_Suc_conv_app_nth)
qed

lemma for_each_emit:
  assumes "\<And>x out. x \<in> set xs \<Longrightarrow> body x out = Inr (out @ g x)"
  shows "for_each xs body out = Inr (out @ concat (map g xs))"
  using assms by (induction xs arbitrary: out) simp_all

lemma get_total_count_total:
  assumes "length (feat_meta feat) = get_nr_rows nc" and "rows_ok (feat_meta feat)"
  shows "get_total_count feat nc = Inr (total_count feat)"
proof -
  let ?g = "\<lambda>p. case p of None \<Rightarrow> 0 | Some ms \<Rightarrow> sum_list (map count ms)"
  have inner: "for_each [0..<LINE_SIZE] (\<lambda>col total.
         err_bind (index ms col) (\<lambda>md. Inr (total + count md))) total
       = Inr (total + sum_list (map count ms))"
    if "length ms = LINE_SIZE" for ms :: "MetaData list" and total
  proof -
    have "for_each [0..<LINE_SIZE] (\<lambda>col total.
         err_bind (index ms col) (\<lambda>md. Inr (total + count md))) total
       = Inr (total + sum_list (map count (take LINE_SIZE ms)))"
      by (rule for_each_accum) (simp_all add: that)
    with that show ?thesis by simp
  qed
  have "for_each [0..<get_nr_rows nc] (\<lambda>row total.
       err_bind (index (feat_meta feat) row) (\<lambda>p.
       case p of
         None \<Rightarrow> Inr total
       | Some ms \<Rightarrow>
           for_each [0..<LINE_SIZE] (\<lambda>col total.
             err_bind (index ms col) (\<lambda>md. Inr (total + count md))) total)) 0
     = Inr (0 + sum_list (map ?g (take (get_nr_rows nc) (feat_meta feat))))"
  proof (rule for_each_accum)
    fix i acc assume i: "i < get_nr_rows nc"
    show "err_bind (index (feat_meta feat) i) (\<lambda>p.
       case p of
         None \<Rightarrow> Inr acc
       | Some ms \<Rightarrow>
           for_each [0..<LINE_SIZE] (\<lambda>col total.
             err_bind (index ms col) (\<lambda>md. Inr (total + count md))) acc)
       = Inr (acc + ?g (feat_meta feat ! i))"
    proof (cases "feat_meta feat ! i")
      case None
      with i assms(1) show ?thesis by simp
    next
      case (Some ms)
      with rows_ok_nth [OF assms(2), of i ms] i assms(1) have "length ms = LINE_SIZE" by simp
      from inner [OF this] Some i assms(1) show ?thesis by simp
    qed
  qed (simp add: assms(1))
  with assms(1) show ?thesis
    by (simp add: get_total_count_def total_count_def)
qed

lemma dump_weights:
  "k \<le> length ws \<Longrightarrow>
   for_each [0..<k] (dump_weight ws) (ln, b)
     = Inr (ln @ map str_int (take k ws), b \<or> \<not> list_all (\<lambda>w. w = 0) (take k ws))"
proof (induction k)
  case 0
  then show ?case by simp
next
  case (Suc k)
  then show ?case
    by (auto simp: for_each_snoc take_Suc_conv_app_nth dump_weight_def Let_def str_int_zero)
qed

lemma dump_row_rec:
  assumes "row_arrays pool (feat_weights feat) = Some arr" and "row < length arr" and "rows_ok arr"
  shows "dump_row pool feat freq t f row file = Inr (file @ map render (row_rec freq t f arr row))"
proof (cases "arr ! row")
  case None
  with assms show ?thesis by (simp add: dump_row_def read_row_def row_rec_def nonzero_row_def)
next
  case (Some ws)
  with rows_ok_nth [OF assms(3,2)] have len: "length ws = LINE_SIZE" by simp
  from dump_weights [of LINE_SIZE ws] len
  have "for_each [0..<LINE_SIZE] (dump_weight ws)
          ([str_nat freq, str_nat t, str_nat f, str_nat row, str_nat (row * LINE_SIZE)], False)
      = Inr ([str_nat freq, str_nat t, str_nat f, str_nat row, str_nat (row * LINE_SIZE)]
               @ map str_int ws, \<not> list_all (\<lambda>w. w = 0) ws)"
    by simp
  with assms Some show ?thesis
    by (simp add: dump_row_def read_row_def row_rec_def nonzero_row_def render_def render_line_def)
qed

lemma dump_cell_recs:
  assumes ok: "model_ok m" and t: "t < nr_templates m" and i: "i < length (train_weights m ! t)"
  shows "dump_cell m thr t i out = Inr (out @ map render (feat_recs m thr t (train_weights m ! t ! i)))"
proof -
  let ?n = "get_nr_rows (nr_class m)"
  let ?cells = "train_weights m ! t"
  from ok have tabs: "list_all2 (table_ok (mem m) ?n) (weights m) (train_weights m)"
    and heap: "heap_ok (mem m) ?n" and lw: "length (weights m) = nr_templates m"
    by (simp_all add: model_ok_def)
  from tabs lw have lt: "length (train_weights m) = nr_templates m"
    by (simp add: list_all2_lengthD)
  from tabs t lw have tab: "table_ok (mem m) ?n (weights m ! t) ?cells"
    by (simp add: list_all2_conv_all_nth)
  then have cells: "list_all2 (cell_ok (mem m) ?n) (weights m ! t) ?cells"
    by (simp add: table_ok_def)
  from cells i have c: "cell_ok (mem m) ?n (weights m ! t ! i) (?cells ! i)"
    and li: "i < length (weights m ! t)"
    by (simp_all add: list_all2_conv_all_nth)
  then obtain feat arr where feat: "snd (?cells ! i) = Some feat" and key: "fst (?cells ! i) \<noteq> 0"
    and wc: "fst (weights m ! t ! i) = fst (?cells ! i)"
    and a: "row_arrays (mem m) (feat_weights feat) = Some arr"
    and meta: "length (feat_meta feat) = ?n" "rows_ok (feat_meta feat)"
    by (auto simp: cell_ok_def)
  from heap_ok_lookup [OF heap a] have arr: "length arr = ?n" "rows_ok arr" by simp_all
  have rows: "for_each [0..<?n] (dump_row (mem m) feat freq t f) out
      = Inr (out @ map render (row_recs freq t f arr))" for freq f
  proof -
    have "for_each [0..<?n] (dump_row (mem m) feat freq t f) out
      = Inr (out @ concat (map (\<lambda>row. map render (row_rec freq t f arr row)) [0..<?n]))"
      by (rule for_each_emit) (simp add: dump_row_rec [OF a _ arr(2)] arr(1))
    then show ?thesis
      by (simp add: row_recs_def arr(1) map_concat comp_def)
  qed
  have "dump_cell m thr t i out =
      (if 1 \<le> thr \<and> total_count feat < thr then Inr out
       else for_each [0..<?n] (dump_row (mem m) feat (total_count feat) t (fst (?cells ! i))) out)"
  proof -
    from t lw lt have 1: "index (weights m) t = Inr (weights m ! t)"
      "index (train_weights m) t = Inr ?cells"
      by simp_all
    from i li have 2: "index ?cells i = Inr (?cells ! i)"
      "index (weights m ! t) i = Inr (weights m ! t ! i)"
      by simp_all
    show ?thesis
      unfolding dump_cell_def 1 2 err_bind_Inr Let_def wc feat get_total_count_total [OF meta]
      using key by (simp add: get_total_count_total [OF meta])
  qed
  moreover have "feat_recs m thr t (?cells ! i) =
      (if 1 \<le> thr \<and> total_count feat < thr then []
       else row_recs (total_count feat) t (fst (?cells ! i)) arr)"
    using key by (simp add: feat_recs_def feat a)
  ultimately show ?thesis
    by (simp add: rows)
qed

lemma map_nth_fun: "map (\<lambda>i. f (xs ! i)) [0..<length xs] = map f xs"
proof -
  have "map f xs = map f (map ((!) xs) [0..<length xs])" by (simp only: map_nth)
  also have "\<dots> = map (\<lambda>i. f (xs ! i)) [0..<length xs]" by (simp only: map_map comp_def)
  finally show ?thesis by simp
qed

lemma dump_records:
  assumes ok: "model_ok m"
  shows "dump m thr = Inr (map render (dump_recs m thr))"
proof -
  from ok have "list_all2 (table_ok (mem m) (get_nr_rows (nr_class m))) (weights m) (train_weights m)"
    and "length (weights m) = nr_templates m"
    by (simp_all add: model_ok_def)
  then have lt: "length (train_weights m) = nr_templates m"
    by (simp add: list_all2_lengthD)
  have "dump m thr = Inr ([] @ concat (map (\<lambda>t. map render (concat (map (feat_recs m thr t) (train_weights m ! t))))
          [0..<nr_templates m]))"
    unfolding dump_def
  proof (rule for_each_emit)
    fix t out assume "t \<in> set [0..<nr_templates m]"
    then have t: "t < nr_templates m" by simp
    have "for_each [0..<length (train_weights m ! t)] (dump_cell m thr t) out
        = Inr (out @ concat (map (\<lambda>i. map render (feat_recs m thr t (train_weights m ! t ! i)))
             [0..<length (train_weights m ! t)]))"
      by (rule for_each_emit) (simp add: dump_cell_recs [OF ok t])
    also have "concat (map (\<lambda>i. map render (feat_recs m thr t (train_weights m ! t ! i)))
             [0..<length (train_weights m ! t)])
        = map render (concat (map (feat_recs m thr t) (train_weights m ! t)))"
      by (simp add: map_nth_fun [of "\<lambda>tc. map render (feat_recs m thr t tc)"] map_concat comp_def)
    finally show "err_bind (index (train_weights m) t) (\<lambda>train_cells.
          for_each [0..<length train_cells] (dump_cell m thr t) out)
        = Inr (out @ map render (concat (map (feat_recs m thr t) (train_weights m ! t))))"
      using t lt by simp
  qed
  then show ?thesis
    by (simp add: dump_recs_def map_concat comp_def)
qed

lemma rec_key_row_recs: "r \<in> set (row_recs freq t f arr) \<Longrightarrow> rec_key r = (t, f)"
  by (auto simp: row_recs_def row_rec_def rec_key_def split: option.splits)

lemma rec_key_feat_recs: "r \<in> set (feat_recs m thr t tc) \<Longrightarrow> rec_key r = (t, fst tc)"
  by (auto simp: feat_recs_def rec_key_row_recs split: option.splits if_splits)

lemma filter_feat_recs:
  "filter (\<lambda>r. rec_key r = k) (feat_recs m thr t tc) = (if k = (t, fst tc) then feat_recs m thr t tc else [])"
proof (cases "k = (t, fst tc)")
  case True
  then have "\<forall>r \<in> set (feat_recs m thr t tc). rec_key r = k"
    by (simp add: rec_key_feat_recs)
  with True show ?thesis by simp
next
  case False
  then have "\<forall>r \<in> set (feat_recs m thr t tc). rec_key r \<noteq> k"
    by (auto dest: rec_key_feat_recs)
  with False show ?thesis by (simp add: filter_empty_conv)
qed

lemma concat_absent:
  "k \<notin> fst ` set cells \<Longrightarrow> concat (map (\<lambda>tc. if fst tc = k then g tc else []) cells) = []"
  by (induction cells) auto

lemma concat_at_key:
  "distinct (map fst cells) \<Longrightarrow>
   concat (map (\<lambda>tc. if fst tc = k then g tc else []) cells)
     = (case map_of cells k of None \<Rightarrow> [] | Some v \<Rightarrow> g (k, v))"
proof (induction cells)
  case Nil
  then show ?case by simp
next
  case (Cons c cells)
  obtain a b where c: "c = (a, b)" by (cases c)
  show ?case
  proof (cases "a = k")
    case True
    with Cons.prems c have "k \<notin> fst ` set cells" by simp
    from concat_absent [OF this, of g] True c show ?thesis by simp
  next
    case False
    with Cons c show ?thesis by simp
  qed
qed

lemma concat_at_index:
  "concat (map (\<lambda>t. if t = t' then g t else []) [0..<n]) = (if t' < n then g t' else [])"
  by (induction n) auto

lemma filter_dump_recs:
  assumes ok: "model_ok m" and t: "t < nr_templates m"
  shows "filter (\<lambda>r. rec_key r = (t, f)) (dump_recs m thr)
       = (case map_get (train_weights m ! t) f of
            None \<Rightarrow> []
          | Some feat \<Rightarrow> feat_recs m thr t (f, Some feat))"
proof -
  let ?n = "get_nr_rows (nr_class m)"
  from ok have tabs: "list_all2 (table_ok (mem m) ?n) (weights m) (train_weights m)"
    and lw: "length (weights m) = nr_templates m"
    by (simp_all add: model_ok_def)
  from tabs t lw have tab: "table_ok (mem m) ?n (weights m ! t) (train_weights m ! t)"
    by (simp add: list_all2_conv_all_nth)
  then have cells: "list_all2 (cell_ok (mem m) ?n) (weights m ! t) (train_weights m ! t)"
    and d: "distinct (map fst (train_weights m ! t))"
    by (simp_all add: table_ok_def)
  have inner: "filter (\<lambda>r. rec_key r = (t, f)) (concat (map (feat_recs m thr t') cells))
      = (if t' = t then concat (map (\<lambda>tc. if fst tc = f then feat_recs m thr t tc else []) cells)
         else [])" for t' cells
    by (induction cells) (auto simp: filter_feat_recs)
  have "filter (\<lambda>r. rec_key r = (t, f)) (dump_recs m thr)
      = concat (map (\<lambda>t'. if t' = t
           then concat (map (\<lambda>tc. if fst tc = f then feat_recs m thr t tc else []) (train_weights m ! t))
           else []) [0..<nr_templates m])"
    unfolding dump_recs_def
    by (subst filter_concat) (simp add: comp_def inner cong: if_cong)
  also have "\<dots> = concat (map (\<lambda>tc. if fst tc = f then feat_recs m thr t tc else []) (train_weights m ! t))"
    using t by (simp add: concat_at_index)
  also have "\<dots> = (case map_of (train_weights m ! t) f of None \<Rightarrow> [] | Some v \<Rightarrow> feat_recs m thr t (f, v))"
    by (rule concat_at_key [OF d])
  also have "\<dots> = (case map_get (train_weights m ! t) f of
            None \<Rightarrow> []
          | Some feat \<Rightarrow> feat_recs m thr t (f, Some feat))"
  proof (cases "map_of (train_weights m ! t) f")
    case None
    then show ?thesis by (simp add: map_get_def)
  next
    case (Some v)
    then have "(f, v) \<in> set (train_weights m ! t)" by (rule map_of_SomeD)
    with cells_ok_values [OF cells] obtain feat where "v = Some feat" by fastforce
    with Some show ?thesis by (simp add: map_get_def)
  qed
  finally show ?thesis .
qed

lemma row_recs_shape:
  assumes "rows_ok arr" and "r \<in> set (row_recs freq t f arr)"
  shows "\<exists>row ws. r = (freq, t, f, row, ws) \<and> row < length arr \<and> arr ! row = Some ws \<and>
           length ws = LINE_SIZE \<and> \<not> list_all (\<lambda>w. w = 0) ws"
proof -
  from assms(2) obtain row where row: "row < length arr" and r: "r \<in> set (row_rec freq t f arr row)"
    by (auto simp: row_recs_def)
  from r obtain ws where "arr ! row = Some ws" "\<not> list_all (\<lambda>w. w = 0) ws" "r = (freq, t, f, row, ws)"
    by (auto simp: row_rec_def nonzero_row_def split: option.splits if_splits)
  with rows_ok_nth [OF assms(1) row] row show ?thesis by simp
qed

lemma dump_recs_shape:
  assumes ok: "model_ok m" and r: "r \<in> set (dump_recs m thr)"
  shows "case r of (freq, t, f, row, ws) \<Rightarrow>
           t < nr_templates m \<and> row < get_nr_rows (nr_class m) \<and> length ws = LINE_SIZE"
proof -
  let ?n = "get_nr_rows (nr_class m)"
  from ok have heap: "heap_ok (mem m) ?n" by (simp add: model_ok_def)
  from r obtain t tc where t: "t < nr_templates m" and "r \<in> set (feat_recs m thr t tc)"
    by (auto simp: dump_recs_def)
  then obtain feat arr where a: "row_arrays (mem m) (feat_weights feat) = Some arr"
    and "r \<in> set (row_recs (total_count feat) t (fst tc) arr)"
    by (auto simp: feat_recs_def split: option.splits if_splits)
  with row_recs_shape [of arr r "total_count feat" t "fst tc"] heap_ok_lookup [OF heap a] t
  show ?thesis by auto
qed

lemma loadable_init: "loadable (LinearModel_init nc nt) n"
  by (simp add: loadable_def LinearModel_init_def map_get_def)

lemma stored_rows_init: "t < nt \<Longrightarrow> stored_rows (LinearModel_init nc nt) t f = None"
  by (simp add: stored_rows_def LinearModel_init_def map_get_def)

lemma length_fold_set_row: "length (fold set_row rs base) = length base"
  by (induction rs arbitrary: base) (auto simp: set_row_def split: prod.splits)

lemma fold_row_recs_nth:
  assumes "k \<le> length arr" and "j < length base"
  shows "fold set_row (concat (map (row_rec freq t f arr) [0..<k])) base ! j
       = (if j < k then (case nonzero_row (arr ! j) of None \<Rightarrow> base ! j | Some ws \<Rightarrow> Some ws)
          else base ! j)"
  using assms(1)
proof (induction k)
  case 0
  then show ?case by simp
next
  case (Suc k)
  let ?R = "fold set_row (concat (map (row_rec freq t f arr) [0..<k])) base"
  from Suc have IH: "?R ! j
       = (if j < k then (case nonzero_row (arr ! j) of None \<Rightarrow> base ! j | Some ws \<Rightarrow> Some ws)
          else base ! j)"
    by simp
  have len: "length ?R = length base" by (rule length_fold_set_row)
  have "fold set_row (concat (map (row_rec freq t f arr) [0..<Suc k])) base
      = fold set_row (row_rec freq t f arr k) ?R"
    by simp
  also have "\<dots> ! j
       = (if j < Suc k then (case nonzero_row (arr ! j) of None \<Rightarrow> base ! j | Some ws \<Rightarrow> Some ws)
          else base ! j)"
  proof (cases "nonzero_row (arr ! k)")
    case None
    with IH show ?thesis
      by (auto simp: row_rec_def less_Suc_eq)
  next
    case (Some ws)
    with IH len assms(2) show ?thesis
      by (auto simp: row_rec_def set_row_def less_Suc_eq nth_list_update)
  qed
  finally show ?case .
qed

lemma row_recs_Nil: "row_recs freq t f arr = [] \<longleftrightarrow> (\<forall>j < length arr. nonzero_row (arr ! j) = None)"
  by (auto simp: row_recs_def row_rec_def split: option.splits)

lemma fold_row_recs:
  "fold set_row (row_recs freq t f arr) (replicate (length arr) None) = map nonzero_row arr"
proof (rule nth_equalityI)
  show "length (fold set_row (row_recs freq t f arr) (replicate (length arr) None)) = length (map nonzero_row arr)"
    by (simp add: length_fold_set_row)
next
  fix j assume "j < length (fold set_row (row_recs freq t f arr) (replicate (length arr) None))"
  then have j: "j < length arr" by (simp add: length_fold_set_row)
  with fold_row_recs_nth [of "length arr" arr j "replicate (length arr) None" freq t f]
  show "fold set_row (row_recs freq t f arr) (replicate (length arr) None) ! j = map nonzero_row arr ! j"
    by (simp add: row_recs_def split: option.splits)
qed

lemma cell_nonzero_rows:
  assumes "rows_ok arr"
  shows "cell (map nonzero_row arr) c = cell arr c"
proof (cases "get_row c < length arr")
  case False
  then show ?thesis by (simp add: cell_def)
next
  case True
  show ?thesis
  proof (cases "arr ! get_row c")
    case None
    with True show ?thesis by (simp add: cell_def nonzero_row_def)
  next
    case (Some ws)
    from rows_ok_nth [OF assms True Some] get_col_less [of c] have "get_col c < length ws" by simp
    then have "list_all (\<lambda>w. w = 0) ws \<Longrightarrow> ws ! get_col c = 0"
      by (simp add: list_all_length)
    with True Some show ?thesis by (auto simp: cell_def nonzero_row_def)
  qed
qed

lemma cell_Nil [simp]: "cell [] c = 0"
  by (simp add: cell_def)

lemma cells_ok_map_get:
  "list_all2 (cell_ok pool n) wcs tcs \<Longrightarrow> map_get wcs f = map_option feat_weights (map_get tcs f)"
proof (induction wcs tcs rule: list_all2_induct)
  case Nil
  then show ?case by (simp add: map_get_def)
next
  case (Cons wc wcs tc tcs)
  obtain k a where wc: "wc = (k, a)" by (cases wc)
  obtain k' b where tc: "tc = (k', b)" by (cases tc)
  from Cons.hyps(1) wc tc obtain feat where "k' = k" "b = Some feat" "a = Some (feat_weights feat)"
    by (auto simp: cell_ok_def)
  with Cons.IH wc tc show ?case
    by (simp add: map_get_def)
qed

lemma model_ok_map_get:
  assumes "model_ok m" and "t < nr_templates m"
  shows "map_get (weights m ! t) f = map_option feat_weights (map_get (train_weights m ! t) f)"
proof -
  from assms have "table_ok (mem m) (get_nr_rows (nr_class m)) (weights m ! t) (train_weights m ! t)"
    by (simp add: model_ok_def list_all2_conv_all_nth)
  then have "list_all2 (cell_ok (mem m) (get_nr_rows (nr_class m))) (weights m ! t) (train_weights m ! t)"
    by (simp add: table_ok_def)
  then show ?thesis by (rule cells_ok_map_get)
qed

lemma model_ok_feature:
  assumes ok: "model_ok m" and t: "t < nr_templates m"
    and get: "map_get (train_weights m ! t) f = Some feat"
  shows "f \<noteq> 0 \<and> (\<exists>arr. row_arrays (mem m) (feat_weights feat) = Some arr \<and>
           length arr = get_nr_rows (nr_class m) \<and> rows_ok arr) \<and>
         map_get (weights m ! t) f = Some (feat_weights feat) \<and>
         length (feat_meta feat) = get_nr_rows (nr_class m) \<and> rows_ok (feat_meta feat)"
proof -
  from ok have "list_all2 (table_ok (mem m) (get_nr_rows (nr_class m))) (weights m) (train_weights m)"
    and lw: "length (weights m) = nr_templates m" and heap: "heap_ok (mem m) (get_nr_rows (nr_class m))"
    by (simp_all add: model_ok_def)
  then have "length (train_weights m) = nr_templates m"
    by (simp add: list_all2_lengthD)
  with t have "t < length (train_weights m)" by simp
  from model_ok_lookup [OF ok this get] obtain arr where
    1: "row_arrays (mem m) (feat_weights feat) = Some arr"
    and 2: "length (feat_meta feat) = get_nr_rows (nr_class m)" "rows_ok (feat_meta feat)"
      "map_get (weights m ! t) f = Some (feat_weights feat)" "f \<noteq> 0"
    by auto
  from heap_ok_lookup [OF heap 1] 1 2 show ?thesis by simp
qed

lemma feature_rows_stored:
  "feature_rows m t f =
     (if f = 0 then []
      else case stored_rows m t f of None \<Rightarrow> [] | Some arr \<Rightarrow> take (get_nr_rows (nr_class m)) arr)"
  by (simp add: feature_rows_def stored_rows_def split: option.splits)

lemma model_ok_feature_rows:
  assumes ok: "model_ok m" and t: "t < nr_templates m"
  shows "feature_rows m t f =
     (case map_get (train_weights m ! t) f of
        None \<Rightarrow> []
      | Some feat \<Rightarrow> (case row_arrays (mem m) (feat_weights feat) of None \<Rightarrow> [] | Some arr \<Rightarrow> arr))"
proof (cases "map_get (train_weights m ! t) f")
  case None
  with model_ok_map_get [OF ok t, of f] show ?thesis
    by (simp add: feature_rows_def)
next
  case (Some feat)
  from model_ok_feature [OF ok t Some] Some show ?thesis
    by (auto simp: feature_rows_def)
qed

lemma dump_load:
  assumes ok: "model_ok m"
  shows "\<exists>m2. load (LinearModel_init (nr_class m) (nr_templates m)) (map render (dump_recs m thr)) 0 = Inr m2 \<and>
      loadable m2 (get_nr_rows (nr_class m)) \<and>
      length (weights m2) = nr_templates m \<and> nr_class m2 = nr_class m \<and>
      nr_templates m2 = nr_templates m \<and>
      length (scores m2) = nr_class m \<and> length (weight_lines m2) = nr_class m * nr_templates m \<and>
      (\<forall>t < nr_templates m. \<forall>f. stored_rows m2 t f =
         (case filter (\<lambda>r. rec_key r = (t, f)) (dump_recs m thr) of
            [] \<Rightarrow> None
          | r # rs \<Rightarrow> Some (fold set_row (r # rs) (replicate (get_nr_rows (nr_class m)) None))))"
proof -
  let ?n = "get_nr_rows (nr_class m)"
  let ?init = "LinearModel_init (nr_class m) (nr_templates m)"
  have shape: "\<forall>r \<in> set (dump_recs m thr). case r of (freq, t, f, row, ws) \<Rightarrow>
           t < length (weights ?init) \<and> row < ?n \<and> length ws = LINE_SIZE"
  proof
    fix r assume "r \<in> set (dump_recs m thr)"
    from dump_recs_shape [OF ok this] show "case r of (freq, t, f, row, ws) \<Rightarrow>
           t < length (weights ?init) \<and> row < ?n \<and> length ws = LINE_SIZE"
      by (simp add: LinearModel_init_def split: prod.splits)
  qed
  from load_records [OF loadable_init shape] obtain m2 where
    run: "for_each (map render (dump_recs m thr)) (load_line 0 ?n) ?init = Inr m2"
    and inv: "loadable m2 ?n"
    and fr: "length (weights m2) = length (weights ?init)" "nr_class m2 = nr_class ?init"
      "nr_templates m2 = nr_templates ?init" "scores m2 = scores ?init"
      "weight_lines m2 = weight_lines ?init"
    and rows: "\<forall>t' < length (weights ?init). \<forall>f'. stored_rows m2 t' f'
           = fold (put_row ?n) (dump_recs m thr) (\<lambda>(t, f). stored_rows ?init t f) (t', f')"
    by blast
  have init: "length (weights ?init) = nr_templates m" "nr_class ?init = nr_class m"
    "nr_templates ?init = nr_templates m" "length (scores ?init) = nr_class m"
    "length (weight_lines ?init) = nr_class m * nr_templates m"
    by (simp_all add: LinearModel_init_def)
  have "stored_rows m2 t f =
         (case filter (\<lambda>r. rec_key r = (t, f)) (dump_recs m thr) of
            [] \<Rightarrow> None
          | r # rs \<Rightarrow> Some (fold set_row (r # rs) (replicate ?n None)))"
    if t: "t < nr_templates m" for t f
  proof -
    from rows t init(1) have "stored_rows m2 t f
           = fold (put_row ?n) (dump_recs m thr) (\<lambda>(t, f). stored_rows ?init t f) (t, f)"
      by simp
    also have "\<dots> = (case filter (\<lambda>r. rec_key r = (t, f)) (dump_recs m thr) of
            [] \<Rightarrow> None
          | r # rs \<Rightarrow> Some (fold set_row (r # rs) (replicate ?n None)))"
      unfolding fold_put_row_key using t
      by (simp add: stored_rows_init split: list.splits)
    finally show ?thesis .
  qed
  with run inv fr init show ?thesis
    by (simp add: load_def)
qed

lemma kept_rows:
  assumes ok: "model_ok m" and t: "t < nr_templates m"
  shows "(case filter (\<lambda>r. rec_key r = (t, f)) (dump_recs m thr) of
            [] \<Rightarrow> None
          | r # rs \<Rightarrow> Some (fold set_row (r # rs) (replicate (get_nr_rows (nr_class m)) None)))
     = (case map_get (train_weights m ! t) f of
          None \<Rightarrow> None
        | Some feat \<Rightarrow>
            if (1 \<le> thr \<and> total_count feat < thr) \<or>
               (\<forall>p \<in> set (feature_rows m t f). nonzero_row p = None)
            then None
            else Some (map nonzero_row (feature_rows m t f)))"
proof (cases "map_get (train_weights m ! t) f")
  case None
  then show ?thesis by (simp add: filter_dump_recs [OF ok t])
next
  case (Some feat)
  from model_ok_feature [OF ok t Some] obtain arr where f: "f \<noteq> 0"
    and a: "row_arrays (mem m) (feat_weights feat) = Some arr"
    and arr: "length arr = get_nr_rows (nr_class m)" "rows_ok arr"
    by blast
  from Some a have rows: "feature_rows m t f = arr"
    by (simp add: model_ok_feature_rows [OF ok t])
  let ?recs = "row_recs (total_count feat) t f arr"
  have recs: "filter (\<lambda>r. rec_key r = (t, f)) (dump_recs m thr)
       = (if 1 \<le> thr \<and> total_count feat < thr then [] else ?recs)"
    using Some f a by (simp add: filter_dump_recs [OF ok t] feat_recs_def)
  have nil: "?recs = [] \<longleftrightarrow> (\<forall>p \<in> set arr. nonzero_row p = None)"
    by (simp add: row_recs_Nil all_set_conv_all_nth)
  show ?thesis
  proof (cases "(1 \<le> thr \<and> total_count feat < thr) \<or> (\<forall>p \<in> set arr. nonzero_row p = None)")
    case True
    with nil have "filter (\<lambda>r. rec_key r = (t, f)) (dump_recs m thr) = []"
      by (auto simp: recs)
    with True Some rows show ?thesis by simp
  next
    case False
    with nil obtain r rs where rs: "?recs = r # rs" by (cases ?recs) auto
    from False have "filter (\<lambda>r. rec_key r = (t, f)) (dump_recs m thr) = ?recs"
      by (auto simp: recs)
    moreover from fold_row_recs [of "total_count feat" t f arr]
    have "fold set_row ?recs (replicate (get_nr_rows (nr_class m)) None) = map nonzero_row arr"
      by (simp add: arr(1))
    ultimately show ?thesis
      using False Some rows rs by simp
  qed
qed

lemma cell_all_zero:
  assumes "\<forall>p \<in> set rows. nonzero_row p = None" and "rows_ok rows"
  shows "cell rows c = 0"
proof -
  have "cell (map nonzero_row rows) c = 0"
    using assms(1) by (simp add: cell_def)
  with cell_nonzero_rows [OF assms(2), of c] show ?thesis by simp
qed

lemma model_ok_rows_ok:
  assumes ok: "model_ok m" and t: "t < nr_templates m"
  shows "rows_ok (feature_rows m t f) \<and> length (feature_rows m t f) \<le> get_nr_rows (nr_class m)"
proof (cases "map_get (train_weights m ! t) f")
  case None
  then show ?thesis by (simp add: model_ok_feature_rows [OF ok t] rows_ok_def)
next
  case (Some feat)
  from model_ok_feature [OF ok t Some] Some show ?thesis
    by (auto simp: model_ok_feature_rows [OF ok t])
qed

lemma round_trip_feature:
  assumes ok: "model_ok m" and t: "t < nr_templates m" and nc: "nr_class m2 = nr_class m"
    and st: "stored_rows m2 t f =
       (case map_get (train_weights m ! t) f of
          None \<Rightarrow> None
        | Some feat \<Rightarrow>
            if \<forall>p \<in> set (feature_rows m t f). nonzero_row p = None then None
            else Some (map nonzero_row (feature_rows m t f)))"
  shows "cell (feature_rows m2 t f) c = cell (feature_rows m t f) c"
proof -
  note rows = model_ok_rows_ok [OF ok t, of f]
  show ?thesis
  proof (cases "map_get (train_weights m ! t) f")
    case None
    with st show ?thesis
      by (simp add: feature_rows_stored [of m2] model_ok_feature_rows [OF ok t])
  next
    case (Some feat)
    from model_ok_feature [OF ok t Some] have f: "f \<noteq> 0" by simp
    show ?thesis
    proof (cases "\<forall>p \<in> set (feature_rows m t f). nonzero_row p = None")
      case True
      with st Some have "feature_rows m2 t f = []"
        by (simp add: feature_rows_stored [of m2])
      with cell_all_zero [OF True, of c] rows show ?thesis by simp
    next
      case False
      with st Some f rows have "feature_rows m2 t f = map nonzero_row (feature_rows m t f)"
        by (simp add: feature_rows_stored [of m2] nc)
      with cell_nonzero_rows [of "feature_rows m t f" c] rows show ?thesis by simp
    qed
  qed
qed

lemma loadable_lookup:
  assumes L: "loadable m n" and t: "t < length (weights m)" and g: "map_get (weights m ! t) f = Some a"
  shows "\<exists>arr. row_arrays (mem m) a = Some arr \<and> length arr = n \<and>
           (\<forall>ws \<in> set arr. \<forall>w. ws = Some w \<longrightarrow> length w = LINE_SIZE)"
proof -
  from L have "\<forall>t < length (weights m). \<forall>f a. map_get (weights m ! t) f = Some a \<longrightarrow>
        a < next_block (mem m) \<and>
        (\<exists>arr. row_arrays (mem m) a = Some arr \<and> length arr = n \<and>
           (\<forall>ws \<in> set arr. \<forall>w. ws = Some w \<longrightarrow> length w = LINE_SIZE))"
    unfolding loadable_def by (rule conjunct1)
  from this [rule_format, OF t g] show ?thesis by (rule conjunct2)
qed

lemma loadable_stored_rows:
  assumes "loadable m n" and "t < length (weights m)"
  shows "stored_rows m t f = None \<longleftrightarrow> map_get (weights m ! t) f = None"
proof (cases "map_get (weights m ! t) f")
  case None
  then show ?thesis by (simp add: stored_rows_def)
next
  case (Some a)
  from loadable_lookup [OF assms Some] obtain arr where "row_arrays (mem m) a = Some arr"
    by (elim exE conjE)
  with Some show ?thesis by (simp add: stored_rows_def)
qed

lemma loadable_scorable:
  assumes "loadable m (get_nr_rows (nr_class m))"
  shows "scorable m"
  unfolding scorable_def
proof (intro allI impI)
  fix t f a assume "t < length (weights m)" and "map_get (weights m ! t) f = Some a"
  with assms have "\<exists>arr. row_arrays (mem m) a = Some arr \<and> length arr = get_nr_rows (nr_class m) \<and>
           (\<forall>ws \<in> set arr. \<forall>w. ws = Some w \<longrightarrow> length w = LINE_SIZE)"
    by (rule loadable_lookup)
  then show "\<exists>arr. row_arrays (mem m) a = Some arr \<and> get_nr_rows (nr_class m) \<le> length arr \<and>
           (\<forall>ws \<in> set arr. \<forall>w. ws = Some w \<longrightarrow> length w = LINE_SIZE)"
    by auto
qed

lemma model_ok_scorable:
  assumes ok: "model_ok m"
  shows "scorable m"
  unfolding scorable_def
proof (intro allI impI)
  fix t f a assume t: "t < length (weights m)" and get: "map_get (weights m ! t) f = Some a"
  from ok t have t': "t < nr_templates m" by (simp add: model_ok_def)
  from get model_ok_map_get [OF ok t', of f] obtain feat where
    feat: "map_get (train_weights m ! t) f = Some feat" and a: "a = feat_weights feat"
    by auto
  from model_ok_feature [OF ok t' feat] a
  show "\<exists>arr. row_arrays (mem m) a = Some arr \<and> get_nr_rows (nr_class m) \<le> length arr \<and>
           (\<forall>ws \<in> set arr. \<forall>w. ws = Some w \<longrightarrow> length w = LINE_SIZE)"
    by (auto simp: rows_ok_def)
qed

lemma get_nr_rows_le:
  assumes "1 \<le> n"
  shows "get_nr_rows n \<le> n"
proof (cases "n < 7")
  case True
  with assms show ?thesis
    by (simp add: get_nr_rows_def get_row_def Let_def LINE_SIZE_def)
next
  case False
  then have "n div 7 + 1 \<le> n" by linarith
  then show ?thesis
    by (simp add: get_nr_rows_def get_row_def Let_def LINE_SIZE_def)
qed

lemma nonzero_row_None:
  "nonzero_row p = None \<longleftrightarrow> (\<forall>ws. p = Some ws \<longrightarrow> list_all (\<lambda>w. w = 0) ws)"
  by (cases p) (simp_all add: nonzero_row_def)

lemma round_trip_model:
  assumes ok: "model_ok m"
  shows "\<exists>m2. dump m 0 = Inr (map render (dump_recs m 0)) \<and>
     load (LinearModel_init (nr_class m) (nr_templates m)) (map render (dump_recs m 0)) 0 = Inr m2 \<and>
     scorable m2 \<and> length (weights m2) = nr_templates m \<and> nr_class m2 = nr_class m \<and>
     length (scores m2) = nr_class m \<and> length (weight_lines m2) = nr_class m * nr_templates m \<and>
     (\<forall>t < nr_templates m. \<forall>f.
        (\<forall>c. cell (feature_rows m2 t f) c = cell (feature_rows m t f) c) \<and>
        (map_get (weights m2 ! t) f = None \<longleftrightarrow>
           (\<forall>p \<in> set (feature_rows m t f). nonzero_row p = None)))"
proof -
  from dump_load [OF ok, of 0] obtain m2 where
    ld: "load (LinearModel_init (nr_class m) (nr_templates m)) (map render (dump_recs m 0)) 0 = Inr m2"
    and inv: "loadable m2 (get_nr_rows (nr_class m))"
    and fr: "length (weights m2) = nr_templates m" "nr_class m2 = nr_class m"
      "length (scores m2) = nr_class m" "length (weight_lines m2) = nr_class m * nr_templates m"
    and rows: "\<And>t f. t < nr_templates m \<Longrightarrow> stored_rows m2 t f =
         (case filter (\<lambda>r. rec_key r = (t, f)) (dump_recs m 0) of
            [] \<Rightarrow> None
          | r # rs \<Rightarrow> Some (fold set_row (r # rs) (replicate (get_nr_rows (nr_class m)) None)))"
    by blast
  have st: "stored_rows m2 t f =
       (case map_get (train_weights m ! t) f of
          None \<Rightarrow> None
        | Some feat \<Rightarrow>
            if \<forall>p \<in> set (feature_rows m t f). nonzero_row p = None then None
            else Some (map nonzero_row (feature_rows m t f)))" if t: "t < nr_templates m" for t f
    using rows [OF t, of f] kept_rows [OF ok t, of f 0]
    by (cases "map_get (train_weights m ! t) f") simp_all
  have "(\<forall>c. cell (feature_rows m2 t f) c = cell (feature_rows m t f) c) \<and>
        (map_get (weights m2 ! t) f = None \<longleftrightarrow>
           (\<forall>p \<in> set (feature_rows m t f). nonzero_row p = None))" if t: "t < nr_templates m" for t f
  proof
    from round_trip_feature [OF ok t fr(2) st [OF t]]
    show "\<forall>c. cell (feature_rows m2 t f) c = cell (feature_rows m t f) c" by simp
  next
    from t fr(1) have "map_get (weights m2 ! t) f = None \<longleftrightarrow> stored_rows m2 t f = None"
      by (simp add: loadable_stored_rows [OF inv])
    also have "\<dots> \<longleftrightarrow> (\<forall>p \<in> set (feature_rows m t f). nonzero_row p = None)"
    proof (cases "map_get (train_weights m ! t) f")
      case None
      then show ?thesis by (simp add: st [OF t] model_ok_feature_rows [OF ok t])
    next
      case (Some feat)
      then show ?thesis by (simp add: st [OF t])
    qed
    finally show "map_get (weights m2 ! t) f = None \<longleftrightarrow>
           (\<forall>p \<in> set (feature_rows m t f). nonzero_row p = None)" .
  qed
  moreover from inv fr(2) have "scorable m2" by (simp add: loadable_scorable)
  ultimately show ?thesis
    using ld fr dump_records [OF ok, of 0] by blast
qed

lemma score_of_cong:
  assumes "nr_class m2 = nr_class m"
    and "\<And>t c. t < length feats \<Longrightarrow> cell (feature_rows m2 t (feats ! t)) c = cell (feature_rows m t (feats ! t)) c"
  shows "score_of m2 feats = score_of m feats"
  unfolding score_of_def assms(1)
  by (intro map_cong arg_cong [where f = sum_list] refl) (simp add: assms(2))

section \<open>The round trip through a dump\<close>



section \<open>Pruning by frequency\<close>

lemma pruned_rows:
  assumes ok: "model_ok m" and t: "t < nr_templates m" and thr: "1 \<le> thr"
    and l: "load (LinearModel_init (nr_class m) (nr_templates m)) (map render (dump_recs m thr)) 0 = Inr m2"
    and inv: "loadable m2 (get_nr_rows (nr_class m))" and lw: "length (weights m2) = nr_templates m"
    and rows: "stored_rows m2 t f =
         (case filter (\<lambda>r. rec_key r = (t, f)) (dump_recs m thr) of
            [] \<Rightarrow> None
          | r # rs \<Rightarrow> Some (fold set_row (r # rs) (replicate (get_nr_rows (nr_class m)) None)))"
  shows "case map_get (train_weights m ! t) f of
          None \<Rightarrow> filter (\<lambda>r. rec_key r = (t, f)) (dump_recs m thr) = [] \<and>
                  map_get (weights m2 ! t) f = None
        | Some feat \<Rightarrow>
            \<exists>freq. get_total_count feat (nr_class m) = Inr freq \<and>
              (if freq < thr
               then filter (\<lambda>r. rec_key r = (t, f)) (dump_recs m thr) = [] \<and>
                    map_get (weights m2 ! t) f = None
               else filter (\<lambda>r. rec_key r = (t, f)) (dump_recs m thr)
                      = row_recs freq t f (feature_rows m t f))"
proof (cases "map_get (train_weights m ! t) f")
  case None
  then have "filter (\<lambda>r. rec_key r = (t, f)) (dump_recs m thr) = []"
    by (simp add: filter_dump_recs [OF ok t])
  moreover from this rows have "stored_rows m2 t f = None" by simp
  with t lw have "map_get (weights m2 ! t) f = None"
    by (simp add: loadable_stored_rows [OF inv])
  ultimately show ?thesis using None by simp
next
  case (Some feat)
  from model_ok_feature [OF ok t Some] obtain arr where f: "f \<noteq> 0"
    and a: "row_arrays (mem m) (feat_weights feat) = Some arr"
    and meta: "length (feat_meta feat) = get_nr_rows (nr_class m)" "rows_ok (feat_meta feat)"
    by blast
  from Some a have fr: "feature_rows m t f = arr"
    by (simp add: model_ok_feature_rows [OF ok t])
  have recs: "filter (\<lambda>r. rec_key r = (t, f)) (dump_recs m thr)
       = (if total_count feat < thr then [] else row_recs (total_count feat) t f arr)"
    using Some f a thr by (simp add: filter_dump_recs [OF ok t] feat_recs_def)
  have "map_get (weights m2 ! t) f = None" if "total_count feat < thr"
  proof -
    from that recs rows have "stored_rows m2 t f = None" by simp
    with t lw show ?thesis by (simp add: loadable_stored_rows [OF inv])
  qed
  with recs fr get_total_count_total [OF meta] Some show ?thesis by simp
qed



end
